theory Spec2Isabelle
  imports Complex_Main "HOL-Library.Word" "HOL-Library.Signed_Division"
begin

unbundle bit_operations_syntax

section \<open>Stenos: basic types, constants and error codes\<close>

text \<open>
  Bytes are \<open>8 word\<close>. The C type \<open>size_t\<close> is taken as 64 bits wide (the
  library targets x86-64); it is a \<open>64 word\<close> where the code's arithmetic can wrap
  (\<open>compress_bound\<close>) and a \<open>nat\<close> where it is a buffer length or an offset into a
  buffer that is held in memory. The C type \<open>int\<close> is \<open>int\<close>: no arithmetic of the
  modelled code on it can overflow.
\<close>

type_synonym u8 = "8 word"
type_synonym size_t = "64 word"

text \<open>The error sentinels of stenos.h (\<open>STENOS_ERROR_*\<close>): values in the last 100
  slots of \<open>size_t\<close>. A call returns either one of them or a size. \<open>Crash\<close> is not
  a code of the library: it stands for a call that does not return (an integer division
  by zero).\<close>

datatype stenos_error =
    Undefined
  | SrcOverflow
  | Alloc
  | InvalidInput
  | InvalidInstructionSet
  | DstOverflow
  | InvalidBytesoftype
  | ZstdInternal
  | InvalidParameter
  | Crash

definition STENOS_BLOCK_SIZE :: nat where
  "STENOS_BLOCK_SIZE = 131072"

definition STENOS_MAX_BLOCK_BYTES :: nat where
  "STENOS_MAX_BLOCK_BYTES = 2 ^ 24 - 1"

definition STENOS_MAX_BYTESOFTYPE :: nat where
  "STENOS_MAX_BYTESOFTYPE = STENOS_MAX_BLOCK_BYTES div 256"

definition STENOS_NO_BLOCK_SHIFT :: nat where
  "STENOS_NO_BLOCK_SHIFT = 2 ^ 64 - 1"

section \<open>stenos.h: the bound on the compressed size\<close>

definition compress_bound :: "size_t \<Rightarrow> size_t" where
  "compress_bound bytes =
     (let min_superblock_size = 65792;
          super_block_count = bytes div min_superblock_size
                              + (if bytes mod min_superblock_size \<noteq> 0 then 1 else 0)
      in 12 + (if super_block_count = 0 then 1 else super_block_count) * 4 + bytes)"

definition stenos_bound :: "size_t \<Rightarrow> size_t" where
  "stenos_bound bytes = compress_bound bytes"

text \<open>The formula of the specification, on natural numbers.\<close>

definition bound_formula :: "nat \<Rightarrow> nat" where
  "bound_formula n = 12 + max 1 ((n + 65791) div 65792) * 4 + n"

section \<open>stenos.cpp: the compression context\<close>

text \<open>\<open>stenos::TimeConstraint\<close>: the timer itself is not state of the model, its
  readings are inputs of the functions that read it.\<close>

record time_constraint =
  nanoseconds :: nat
  total_bytes :: nat
  processed_bytes :: nat
  finish_memcpy :: bool

text \<open>\<open>stenos_context_s\<close>. The scratch buffers are not part of the record: what
  they hold never outlives one call.\<close>

record stenos_context =
  superblock_size :: nat
  t :: time_constraint
  threads :: int
  level :: int
  shift :: int
  custom_blocksize_shift :: nat

definition make_time_constraint :: time_constraint where
  "make_time_constraint =
     \<lparr>nanoseconds = 0, total_bytes = 0, processed_bytes = 0, finish_memcpy = False\<rparr>"

definition stenos_make_context :: stenos_context where
  "stenos_make_context =
     \<lparr>superblock_size = 0, t = make_time_constraint, threads = 1, level = 1, shift = 0,
      custom_blocksize_shift = STENOS_NO_BLOCK_SHIFT\<rparr>"

text \<open>The setters return the \<open>size_t\<close> code (\<open>None\<close> is the code 0) and the
  updated context.\<close>

definition stenos_set_level :: "stenos_context \<Rightarrow> int \<Rightarrow> stenos_error option \<times> stenos_context" where
  "stenos_set_level ctx lvl =
     (let lvl' = (if lvl > 9 then 9 else if lvl < 0 then 0 else lvl)
      in (None, ctx\<lparr>level := lvl'\<rparr>))"

definition stenos_set_threads :: "stenos_context \<Rightarrow> int \<Rightarrow> stenos_error option \<times> stenos_context" where
  "stenos_set_threads ctx n = (None, ctx\<lparr>threads := (if n < 1 then 1 else n)\<rparr>)"

definition stenos_set_max_nanoseconds :: "stenos_context \<Rightarrow> nat \<Rightarrow> stenos_error option \<times> stenos_context" where
  "stenos_set_max_nanoseconds ctx ns = (None, ctx\<lparr>t := (t ctx)\<lparr>nanoseconds := ns\<rparr>\<rparr>)"

definition stenos_set_block_size :: "stenos_context \<Rightarrow> nat \<Rightarrow> stenos_error option \<times> stenos_context" where
  "stenos_set_block_size ctx blocksize_shift =
     (if blocksize_shift \<ge> 16 \<and> blocksize_shift \<noteq> STENOS_NO_BLOCK_SHIFT
      then (Some InvalidParameter, ctx)
      else (None, ctx\<lparr>custom_blocksize_shift := blocksize_shift\<rparr>))"

text \<open>\<open>stenos::super_block_size\<close>.\<close>

definition super_block_size :: "nat \<Rightarrow> nat" where
  "super_block_size block_size =
     (if block_size > STENOS_BLOCK_SIZE then block_size
      else (STENOS_BLOCK_SIZE div block_size) * block_size)"

text \<open>
  \<open>stenos_context_s::prepare\<close>. The code assigns \<open>shift = 0\<close> before the range check
  of the superblock size, and stores the superblock size only when the check passes;
  \<open>clear_buffers\<close> has no effect on the record. The shifts \<open>x << s\<close> are
  \<open>x * 2 ^ s\<close>: with a level in 0..9 and a custom shift below 16 (what the setters
  store) no shift leaves 64 bits.

  With a time budget the code computes \<open>size_t required_superblock_count = threads * 32\<close>:
  the product is taken on the 32-bit \<open>int\<close> \<open>threads\<close>, where it wraps
  (\<open>signed_take_bit 31\<close>), and is then converted to \<open>size_t\<close> (modulo \<open>2^64\<close>). When
  it is 0 (a thread count that is a multiple of \<open>2^27\<close>) the division
  \<open>bytes / required_superblock_count\<close> traps: the result is \<open>Crash\<close>.
\<close>

definition prepare :: "stenos_context \<Rightarrow> nat \<Rightarrow> nat \<Rightarrow> stenos_error option \<times> stenos_context" where
  "prepare ctx bytesoftype bytes =
     (if bytesoftype = 0 \<or> bytesoftype \<ge> STENOS_MAX_BYTESOFTYPE
      then (Some InvalidBytesoftype, ctx)
      else
        let block_size = bytesoftype * 256;
            required_superblock_count = nat (signed_take_bit 31 (threads ctx * 32) mod 2 ^ 64)
        in
        if nanoseconds (t ctx) \<noteq> 0 \<and> required_superblock_count = 0
        then (Some Crash, ctx\<lparr>shift := 0\<rparr>)
        else
        let (new_superblock_size, sh) =
              (if nanoseconds (t ctx) \<noteq> 0 then
                 let required_superblock_size = bytes div required_superblock_count;
                     block_count0 = required_superblock_size div block_size;
                     block_count = (if block_count0 = 0 then 1 else block_count0);
                     nss = block_size * block_count
                 in if nss \<ge> STENOS_MAX_BLOCK_BYTES then
                      (let nss' = super_block_size block_size
                       in if bytes > nss' then (nss' * 2 ^ 4, 4) else (nss', 255))
                    else if nss < STENOS_BLOCK_SIZE then (super_block_size block_size, 255)
                    else (nss, 255)
               else if custom_blocksize_shift ctx \<noteq> STENOS_NO_BLOCK_SHIFT then
                 (block_size * 2 ^ custom_blocksize_shift ctx, 255)
               else
                 let nss = super_block_size block_size
                 in if bytes > nss then
                      (let s = (if level ctx \<noteq> 0 then (level ctx - 1) sdiv 2 else 0)
                       in (nss * 2 ^ nat s, s))
                    else (nss, 0));
            ctx1 = ctx\<lparr>shift := sh\<rparr>
        in if new_superblock_size < block_size \<or> new_superblock_size \<ge> STENOS_MAX_BLOCK_BYTES
           then (Some InvalidParameter, ctx1)
           else
             let ctx2 = ctx1\<lparr>superblock_size := new_superblock_size\<rparr>;
                 ctx3 = (if nanoseconds (t ctx2) \<noteq> 0
                         then ctx2\<lparr>t := (t ctx2)\<lparr>total_bytes := bytes, finish_memcpy := False,
                                                 processed_bytes := 0\<rparr>\<rparr>
                         else ctx2)
             in (None, ctx3))"

section \<open>SSE2 and AVX2 registers as byte lists\<close>

text \<open>
  A buffer in memory is a list of bytes and a pointer into it is an offset. An
  \<open>__m128i\<close> is the list of its 16 bytes and an \<open>__m256i\<close> the list of its 32 bytes,
  the byte at the lowest address first. The intrinsics below are the ones delta.cpp uses,
  with the meaning Intel's reference gives them.
\<close>

type_synonym m128i = "u8 list"
type_synonym m256i = "u8 list"

definition mm_loadu :: "nat \<Rightarrow> u8 list \<Rightarrow> nat \<Rightarrow> u8 list" where
  "mm_loadu w mem p = map (\<lambda>k. mem ! (p + k)) [0..<w]"

definition mm_storeu :: "nat \<Rightarrow> u8 list \<Rightarrow> nat \<Rightarrow> u8 list \<Rightarrow> u8 list" where
  "mm_storeu w mem p v = fold (\<lambda>k m. m[p + k := v ! k]) [0..<w] mem"

definition mm_loadu_si128 :: "u8 list \<Rightarrow> nat \<Rightarrow> m128i" where
  "mm_loadu_si128 mem p = mm_loadu 16 mem p"

definition mm_storeu_si128 :: "u8 list \<Rightarrow> nat \<Rightarrow> m128i \<Rightarrow> u8 list" where
  "mm_storeu_si128 mem p v = mm_storeu 16 mem p v"

definition mm256_loadu_si256 :: "u8 list \<Rightarrow> nat \<Rightarrow> m256i" where
  "mm256_loadu_si256 mem p = mm_loadu 32 mem p"

definition mm256_storeu_si256 :: "u8 list \<Rightarrow> nat \<Rightarrow> m256i \<Rightarrow> u8 list" where
  "mm256_storeu_si256 mem p v = mm_storeu 32 mem p v"

definition mm_sub_epi8 :: "u8 list \<Rightarrow> u8 list \<Rightarrow> u8 list" where
  "mm_sub_epi8 a b = map (\<lambda>(x, y). x - y) (zip a b)"

definition mm_add_epi8 :: "u8 list \<Rightarrow> u8 list \<Rightarrow> u8 list" where
  "mm_add_epi8 a b = map (\<lambda>(x, y). x + y) (zip a b)"

definition mm_and_si128 :: "u8 list \<Rightarrow> u8 list \<Rightarrow> u8 list" where
  "mm_and_si128 a b = map (\<lambda>(x, y). x AND y) (zip a b)"

definition mm_setzero_si128 :: m128i where
  "mm_setzero_si128 = replicate 16 0"

definition mm256_setzero_si256 :: m256i where
  "mm256_setzero_si256 = replicate 32 0"

definition mm_set1_epi8 :: "u8 \<Rightarrow> m128i" where
  "mm_set1_epi8 c = replicate 16 c"

definition mm256_set1_epi8 :: "u8 \<Rightarrow> m256i" where
  "mm256_set1_epi8 c = replicate 32 c"

text \<open>\<open>_mm_slli_si128(x, n)\<close> moves every byte \<open>n\<close> places up and fills with zeros;
  \<open>_mm256_slli_si256\<close> does so in each 128-bit half on its own.\<close>

definition mm_slli_si128 :: "m128i \<Rightarrow> nat \<Rightarrow> m128i" where
  "mm_slli_si128 x n = replicate n 0 @ take (16 - n) x"

definition mm256_slli_si256 :: "m256i \<Rightarrow> nat \<Rightarrow> m256i" where
  "mm256_slli_si256 x n = mm_slli_si128 (take 16 x) n @ mm_slli_si128 (drop 16 x) n"

text \<open>\<open>_mm256_permute4x64_epi64(x, imm)\<close>: the 64-bit lane \<open>i\<close> of the result is the
  lane of \<open>x\<close> selected by the bits \<open>2i+1..2i\<close> of \<open>imm\<close>.\<close>

definition mm256_permute4x64_epi64 :: "m256i \<Rightarrow> nat \<Rightarrow> m256i" where
  "mm256_permute4x64_epi64 x imm =
     concat (map (\<lambda>i. take 8 (drop (8 * ((imm div 4 ^ i) mod 4)) x)) [0..<4])"

definition MM_SHUFFLE :: "nat \<Rightarrow> nat \<Rightarrow> nat \<Rightarrow> nat \<Rightarrow> nat" where
  "MM_SHUFFLE z y x w = z * 64 + y * 16 + x * 4 + w"

text \<open>\<open>_mm_shuffle_epi8(a, b)\<close>: byte \<open>i\<close> is 0 when the top bit of \<open>b[i]\<close> is set and
  \<open>a[b[i] & 15]\<close> otherwise; the 256-bit form works on each half on its own.\<close>

definition mm_shuffle_epi8 :: "m128i \<Rightarrow> m128i \<Rightarrow> m128i" where
  "mm_shuffle_epi8 a b = map (\<lambda>i. if bit (b ! i) 7 then 0 else a ! unat (b ! i AND 15)) [0..<16]"

definition mm256_shuffle_epi8 :: "m256i \<Rightarrow> m256i \<Rightarrow> m256i" where
  "mm256_shuffle_epi8 a b =
     mm_shuffle_epi8 (take 16 a) (take 16 b) @ mm_shuffle_epi8 (drop 16 a) (drop 16 b)"

text \<open>\<open>_mm256_set_m128i(hi, lo)\<close>.\<close>

definition mm256_set_m128i :: "m128i \<Rightarrow> m128i \<Rightarrow> m256i" where
  "mm256_set_m128i hi lo = lo @ hi"

text \<open>The processor features \<open>cpu_features()\<close> reports. A field is true when the
  instruction set is compiled in (\<open>#ifdef __SSE2__\<close>, \<open>#ifdef __AVX2__\<close>) and the
  processor has it.\<close>

record cpu_features =
  HAS_SSE2 :: bool
  HAS_SSE3 :: bool
  HAS_SSE41 :: bool
  HAS_AVX2 :: bool

section \<open>delta.cpp: byte delta\<close>

text \<open>
  Every function takes the source buffer, the destination buffer as it is before the
  call and the byte count, in the order of the C signature, and returns the destination
  buffer after the call. The loop \<open>for (i = 0; i < n; ++i)\<close> is a \<open>fold\<close> over
  \<open>[0..<n]\<close>; \<open>src\<close> and \<open>dst\<close> advanced by \<open>*dst++ = *src++\<close> are the offset 1.
\<close>

definition delta_generic :: "u8 list \<Rightarrow> u8 list \<Rightarrow> nat \<Rightarrow> u8 list" where
  "delta_generic src dst bytes =
     (if bytes = 0 then dst
      else if bytes \<le> 2048 then
        let d0 = dst[0 := src ! 0];
            n = bytes - 1
        in fold (\<lambda>i d. d[1 + i := src ! (1 + i) - src ! (1 + i - 1)]) [0..<n] d0
      else
        let bytes4 = bytes div 4;
            s0 = 0; s1 = bytes4; s2 = bytes4 * 2; s3 = bytes4 * 3;
            d0 = dst[s0 := src ! s0, s1 := src ! s1, s2 := src ! s2, s3 := src ! s3];
            n4 = bytes4 - 1;
            d1 = fold (\<lambda>i d. d[s0 + 1 + i := src ! (s0 + 1 + i) - src ! (s0 + 1 + i - 1),
                                s1 + 1 + i := src ! (s1 + 1 + i) - src ! (s1 + 1 + i - 1),
                                s2 + 1 + i := src ! (s2 + 1 + i) - src ! (s2 + 1 + i - 1),
                                s3 + 1 + i := src ! (s3 + 1 + i) - src ! (s3 + 1 + i - 1)])
                      [0..<n4] d0;
            start = (n4 + 1) * 4
        in fold (\<lambda>i d. d[i := src ! i - src ! (i - 1)]) [start..<bytes] d1)"

text \<open>The vector loop \<open>for (i = 0; i < size; i += w)\<close> of the SSE2 (\<open>w = 16\<close>) and AVX2
  (\<open>w = 32\<close>) forms: one subtraction of two unaligned loads per step.\<close>

definition delta_vec_step :: "nat \<Rightarrow> u8 list \<Rightarrow> nat \<Rightarrow> nat \<Rightarrow> u8 list \<Rightarrow> u8 list" where
  "delta_vec_step w src p i d =
     mm_storeu w d (p + i) (mm_sub_epi8 (mm_loadu w src (p + i)) (mm_loadu w src (p + i - 1)))"

definition delta_simd :: "nat \<Rightarrow> u8 list \<Rightarrow> u8 list \<Rightarrow> nat \<Rightarrow> u8 list" where
  "delta_simd w src dst bytes =
     (if bytes = 0 then dst
      else if bytes \<le> 2048 then
        let d0 = dst[0 := src ! 0];
            n = bytes - 1;
            sizew = n - n mod w;
            d1 = fold (\<lambda>i d. delta_vec_step w src 1 i d) (map (\<lambda>k. k * w) [0..<sizew div w]) d0
        in fold (\<lambda>i d. d[1 + i := src ! (1 + i) - src ! (1 + i - 1)]) [sizew..<n] d1
      else
        let bytes4 = bytes div 4;
            s0 = 0; s1 = bytes4; s2 = bytes4 * 2; s3 = bytes4 * 3;
            d0 = dst[s0 := src ! s0, s1 := src ! s1, s2 := src ! s2, s3 := src ! s3];
            n4 = bytes4 - 1;
            sizew = n4 - n4 mod w;
            d1 = fold (\<lambda>i d. delta_vec_step w src (s3 + 1) i
                                (delta_vec_step w src (s2 + 1) i
                                  (delta_vec_step w src (s1 + 1) i
                                    (delta_vec_step w src (s0 + 1) i d))))
                      (map (\<lambda>k. k * w) [0..<sizew div w]) d0;
            d2 = fold (\<lambda>i d. d[s0 + 1 + i := src ! (s0 + 1 + i) - src ! (s0 + 1 + i - 1),
                                s1 + 1 + i := src ! (s1 + 1 + i) - src ! (s1 + 1 + i - 1),
                                s2 + 1 + i := src ! (s2 + 1 + i) - src ! (s2 + 1 + i - 1),
                                s3 + 1 + i := src ! (s3 + 1 + i) - src ! (s3 + 1 + i - 1)])
                      [sizew..<n4] d1;
            start = (n4 + 1) * 4
        in fold (\<lambda>i d. d[i := src ! i - src ! (i - 1)]) [start..<bytes] d2)"

definition delta_sse2 :: "u8 list \<Rightarrow> u8 list \<Rightarrow> nat \<Rightarrow> u8 list" where
  "delta_sse2 src dst bytes = delta_simd 16 src dst bytes"

definition delta_avx2 :: "u8 list \<Rightarrow> u8 list \<Rightarrow> nat \<Rightarrow> u8 list" where
  "delta_avx2 src dst bytes = delta_simd 32 src dst bytes"

definition delta :: "cpu_features \<Rightarrow> u8 list \<Rightarrow> u8 list \<Rightarrow> nat \<Rightarrow> u8 list" where
  "delta cpu src dst bytes =
     (if HAS_AVX2 cpu then delta_avx2 src dst bytes
      else if HAS_SSE2 cpu then delta_sse2 src dst bytes
      else delta_generic src dst bytes)"

subsection \<open>Inverse byte delta\<close>

text \<open>One step of the scalar inverse loops, \<open>dst[q] = dst[q - 1] + src[q]\<close>, at the
  offset \<open>q\<close> from the start of the buffers.\<close>

definition inv_step :: "u8 list \<Rightarrow> nat \<Rightarrow> u8 list \<Rightarrow> u8 list" where
  "inv_step src q d = d[q := d ! (q - 1) + src ! q]"

definition delta_inv_generic :: "u8 list \<Rightarrow> u8 list \<Rightarrow> nat \<Rightarrow> u8 list" where
  "delta_inv_generic src dst bytes =
     (if bytes = 0 then dst
      else if bytes \<le> 2048 then
        let d0 = dst[0 := src ! 0];
            n = bytes - 1
        in fold (\<lambda>i d. inv_step src (0 + 1 + i) d) [0..<n] d0
      else
        let bytes4 = bytes div 4;
            s0 = 0; s1 = bytes4; s2 = bytes4 * 2; s3 = bytes4 * 3;
            d0 = dst[s0 := src ! s0, s1 := src ! s1, s2 := src ! s2, s3 := src ! s3];
            n4 = bytes4 - 1;
            d1 = fold (\<lambda>i d. inv_step src (s3 + 1 + i)
                                (inv_step src (s2 + 1 + i)
                                  (inv_step src (s1 + 1 + i)
                                    (inv_step src (s0 + 1 + i) d))))
                      [0..<n4] d0;
            start = (n4 + 1) * 4
        in fold (\<lambda>i d. inv_step src i d) [start..<bytes] d1)"

text \<open>\<open>prefix_sum_16\<close>, and \<open>prefix2\<close> and \<open>prefix_sum_32\<close> of the AVX2 form.\<close>

definition prefix_sum_16 :: "m128i \<Rightarrow> m128i" where
  "prefix_sum_16 x =
     (let x1 = mm_add_epi8 x (mm_slli_si128 x 1);
          x2 = mm_add_epi8 x1 (mm_slli_si128 x1 2);
          x3 = mm_add_epi8 x2 (mm_slli_si128 x2 4);
          x4 = mm_add_epi8 x3 (mm_slli_si128 x3 8)
      in x4)"

definition prefix2 :: "m256i \<Rightarrow> m256i" where
  "prefix2 x =
     (let x1 = mm_add_epi8 x (mm256_slli_si256 x 1);
          x2 = mm_add_epi8 x1 (mm256_slli_si256 x1 2);
          x3 = mm_add_epi8 x2 (mm256_slli_si256 x2 4);
          x4 = mm_add_epi8 x3 (mm256_slli_si256 x3 8)
      in x4)"

definition prefix_sum_32 :: "m256i \<Rightarrow> m256i \<Rightarrow> m256i" where
  "prefix_sum_32 x shuffle_mask =
     (let x1 = prefix2 x;
          last_value = mm256_permute4x64_epi64 x1 (MM_SHUFFLE 1 0 0 0);
          last_value' = mm256_shuffle_epi8 last_value shuffle_mask
      in mm_add_epi8 x1 last_value')"

text \<open>
  The vector forms of the inverse never copy the first byte: their vector loop starts at
  offset 0 with a zero carry, and their scalar loop is \<open>*dst = dst[-1] + *src\<close>. At
  offset 0 that loop reads the byte of memory that lies before the destination buffer;
  the model takes this byte as the parameter \<open>pre\<close>.
\<close>

definition dst_before :: "u8 \<Rightarrow> u8 list \<Rightarrow> nat \<Rightarrow> u8" where
  "dst_before pre d p = (if p = 0 then pre else d ! (p - 1))"

definition inv_step_pre :: "u8 \<Rightarrow> u8 list \<Rightarrow> nat \<Rightarrow> u8 list \<Rightarrow> u8 list" where
  "inv_step_pre pre src q d = d[q := dst_before pre d q + src ! q]"

definition sse2_mask :: m128i where
  "sse2_mask = 255 # replicate 15 0"

definition avx2_mask :: m256i where
  "avx2_mask = 255 # replicate 31 0"

definition avx2_shuffle :: m256i where
  "avx2_shuffle = mm256_set_m128i (mm_set1_epi8 15) (mm_set1_epi8 128)"

text \<open>The prefix sum of one register (the function \<open>ps\<close>) with the carry in its first
  byte, as the statement in the vector loops computes it.\<close>

definition prefix_sum_w :: "nat \<Rightarrow> u8 list \<Rightarrow> u8 list" where
  "prefix_sum_w w x = (if w = 16 then prefix_sum_16 x else prefix_sum_32 x avx2_shuffle)"

definition mask_w :: "nat \<Rightarrow> u8 list" where
  "mask_w w = (if w = 16 then sse2_mask else avx2_mask)"

text \<open>One statement group of the vector loop for the stream at offset \<open>s\<close>, block
  \<open>k\<close>: the state is the destination and the register \<open>first\<close> of the stream.\<close>

definition delta_inv_vec_step ::
  "nat \<Rightarrow> u8 list \<Rightarrow> nat \<Rightarrow> nat \<Rightarrow> u8 list \<times> u8 list \<Rightarrow> u8 list \<times> u8 list" where
  "delta_inv_vec_step w src s k st =
     (let (d, first) = st;
          row = mm_loadu w src (s + k * w);
          d' = mm_storeu w d (s + k * w)
                 (prefix_sum_w w (mm_add_epi8 (mm_and_si128 (mask_w w) first) row));
          first' = replicate w (d' ! (s + k * w + (w - 1)))
      in (d', first'))"

definition delta_inv_simd :: "nat \<Rightarrow> u8 \<Rightarrow> u8 list \<Rightarrow> u8 list \<Rightarrow> nat \<Rightarrow> u8 list" where
  "delta_inv_simd w pre src dst bytes =
     (if bytes = 0 then dst
      else if bytes \<le> 2048 then
        let nv = bytes div w;
            (d1, first) = fold (\<lambda>k st. delta_inv_vec_step w src 0 k st) [0..<nv]
                            (dst, replicate w 0)
        in fold (\<lambda>i d. inv_step_pre pre src i d) [nv * w..<bytes] d1
      else
        let bytes4 = bytes div 4;
            s0 = 0; s1 = bytes4; s2 = bytes4 * 2; s3 = bytes4 * 3;
            nv = bytes4 div w;
            z = replicate w 0;
            (d1, f0, f1, f2, f3) =
              fold (\<lambda>k (d, f0, f1, f2, f3).
                      let (da, f0') = delta_inv_vec_step w src s0 k (d, f0);
                          (db, f1') = delta_inv_vec_step w src s1 k (da, f1);
                          (dc, f2') = delta_inv_vec_step w src s2 k (db, f2);
                          (dd, f3') = delta_inv_vec_step w src s3 k (dc, f3)
                      in (dd, f0', f1', f2', f3'))
                   [0..<nv] (dst, z, z, z, z);
            d2 = fold (\<lambda>i d. inv_step_pre pre src (s3 + i)
                                (inv_step_pre pre src (s2 + i)
                                  (inv_step_pre pre src (s1 + i)
                                    (inv_step_pre pre src (s0 + i) d))))
                      [nv * w..<bytes4] d1;
            start = bytes4 * 4
        in fold (\<lambda>i d. inv_step src i d) [start..<bytes] d2)"

definition delta_inv_sse2 :: "u8 \<Rightarrow> u8 list \<Rightarrow> u8 list \<Rightarrow> nat \<Rightarrow> u8 list" where
  "delta_inv_sse2 pre src dst bytes = delta_inv_simd 16 pre src dst bytes"

definition delta_inv_avx2 :: "u8 \<Rightarrow> u8 list \<Rightarrow> u8 list \<Rightarrow> nat \<Rightarrow> u8 list" where
  "delta_inv_avx2 pre src dst bytes = delta_inv_simd 32 pre src dst bytes"

definition delta_inv :: "cpu_features \<Rightarrow> u8 \<Rightarrow> u8 list \<Rightarrow> u8 list \<Rightarrow> nat \<Rightarrow> u8 list" where
  "delta_inv cpu pre src dst bytes =
     (if HAS_AVX2 cpu then delta_inv_avx2 pre src dst bytes
      else if HAS_SSE2 cpu then delta_inv_sse2 pre src dst bytes
      else delta_inv_generic src dst bytes)"

subsection \<open>Notions used to state and prove the properties of the delta functions\<close>

text \<open>\<open>writes g is d\<close> stores \<open>g i\<close> at every index \<open>i\<close> of the list \<open>is\<close>, in order.\<close>

definition writes :: "(nat \<Rightarrow> 'a) \<Rightarrow> nat list \<Rightarrow> 'a list \<Rightarrow> 'a list" where
  "writes g idxs d = fold (\<lambda>i d. d[i := g i]) idxs d"

text \<open>The byte the delta coder stores at an index that is not the start of a stream.\<close>

definition dlt :: "u8 list \<Rightarrow> nat \<Rightarrow> u8" where
  "dlt src i = src ! i - src ! (i - 1)"

text \<open>The starts of the streams of a buffer of \<open>n\<close> bytes: offset 0 alone up to 2048
  bytes, the four quarter offsets above.\<close>

definition stream_starts :: "nat \<Rightarrow> nat set" where
  "stream_starts n =
     (if n = 0 then {} else if n \<le> 2048 then {0}
      else {0, n div 4, n div 4 * 2, n div 4 * 3})"

text \<open>\<open>chained S qs\<close>: every index of \<open>qs\<close> has its predecessor in \<open>S\<close> or earlier in
  \<open>qs\<close>.\<close>

fun chained :: "nat set \<Rightarrow> nat list \<Rightarrow> bool" where
  "chained S [] = True"
| "chained S (q # qs) = (0 < q \<and> q - 1 \<in> S \<and> chained (insert q S) qs)"

text \<open>\<open>is_delta_of n y x\<close>: the first \<open>n\<close> bytes of \<open>y\<close> are the delta coding of the
  first \<open>n\<close> bytes of \<open>x\<close>.\<close>

definition is_delta_of :: "nat \<Rightarrow> u8 list \<Rightarrow> u8 list \<Rightarrow> bool" where
  "is_delta_of n y x =
     (\<forall>j<n. y ! j = (if j \<in> stream_starts n then x ! j else x ! j - x ! (j - 1)))"

section \<open>stenos.cpp: superblock records\<close>

text \<open>Little-endian integers: \<open>write_uint32_3\<close>, \<open>write_uint64_7\<close>, \<open>write_LE_32\<close> store
  the low 3, 7 and 4 bytes of their argument, \<open>read_uint32_3\<close>, \<open>read_uint64_7\<close> and
  \<open>read_LE_32\<close> read them back.\<close>

definition le_bytes :: "nat \<Rightarrow> nat \<Rightarrow> u8 list" where
  "le_bytes k v = map (\<lambda>i. of_nat (v div 256 ^ i)) [0..<k]"

definition read_le :: "u8 list \<Rightarrow> nat" where
  "read_le bs = foldr (\<lambda>b acc. unat b + 256 * acc) bs 0"

definition write_uint32_3 :: "nat \<Rightarrow> u8 list" where
  "write_uint32_3 val = le_bytes 3 (val mod 2 ^ 32)"

definition read_uint32_3 :: "u8 list \<Rightarrow> nat \<Rightarrow> nat" where
  "read_uint32_3 src p = read_le (take 3 (drop p src))"

definition write_uint64_7 :: "nat \<Rightarrow> u8 list" where
  "write_uint64_7 val = le_bytes 7 (val mod 2 ^ 64)"

definition read_uint64_7 :: "u8 list \<Rightarrow> nat \<Rightarrow> nat" where
  "read_uint64_7 src p = read_le (take 7 (drop p src))"

definition write_LE_32 :: "nat \<Rightarrow> u8 list" where
  "write_LE_32 val = le_bytes 4 (val mod 2 ^ 32)"

definition read_LE_32 :: "u8 list \<Rightarrow> nat \<Rightarrow> nat" where
  "read_LE_32 src p = read_le (take 4 (drop p src))"

definition STENOS_FRAME_HEADER_BLOCK :: u8 where "STENOS_FRAME_HEADER_BLOCK = 1"
definition STENOS_FRAME_HEADER_ZSTD :: u8 where "STENOS_FRAME_HEADER_ZSTD = 2"
definition STENOS_FRAME_HEADER_TRANSPOSED_ZSTD :: u8 where "STENOS_FRAME_HEADER_TRANSPOSED_ZSTD = 3"
definition STENOS_FRAME_HEADER_TRANSPOSED_DELTA_ZSTD :: u8 where
  "STENOS_FRAME_HEADER_TRANSPOSED_DELTA_ZSTD = 4"
definition STENOS_FRAME_HEADER_BLOCK_ZSTD :: u8 where "STENOS_FRAME_HEADER_BLOCK_ZSTD = 5"
definition STENOS_FRAME_HEADER_COPY :: u8 where "STENOS_FRAME_HEADER_COPY = 6"

text \<open>
  A function that fills a destination buffer and returns a size or an error code is,
  in the model, a function that returns the error or the bytes it wrote; the size is
  their number. \<open>compress_memcpy\<close>:
\<close>

definition compress_memcpy :: "u8 list \<Rightarrow> nat \<Rightarrow> stenos_error + u8 list" where
  "compress_memcpy src dst_size =
     (let bytes = length src
      in if dst_size < bytes + 4 then Inl DstOverflow
         else Inr (STENOS_FRAME_HEADER_COPY # write_uint32_3 bytes @ src))"

text \<open>
  The coders the superblock encoder calls and that are not modelled here are parameters
  of the model: the block coder of block_compress.h (its result depends on the capacity
  it is given), the entropy coder (zstd, an external library), the two estimators of
  the LZ ratio (they return a \<open>double\<close>, here a real number, and only choose the
  strategy) and \<open>shuffle\<close>/\<open>unshuffle\<close> (the fields \<open>shuffle_fn\<close> and
  \<open>unshuffle_fn\<close>), of which the current sources hold the declaration only. Every theorem about the frame codec holds for all of them.

  \<open>block_compress_generic c src bytesoftype dst_size block_level full_level t
  target_ratio shuffled\<close>, \<open>zstd_compress_with_context c dstCapacity src level\<close>.
\<close>

record coders =
  block_compress_generic ::
    "u8 list \<Rightarrow> nat \<Rightarrow> nat \<Rightarrow> int \<Rightarrow> int \<Rightarrow> time_constraint \<Rightarrow> real option \<Rightarrow> u8 list option
      \<Rightarrow> stenos_error + u8 list"
  block_decompress_generic :: "u8 list \<Rightarrow> nat \<Rightarrow> nat \<Rightarrow> stenos_error + u8 list"
  zstd_compress_with_context :: "nat \<Rightarrow> u8 list \<Rightarrow> int \<Rightarrow> stenos_error + u8 list"
  ZSTD_decompress :: "nat \<Rightarrow> u8 list \<Rightarrow> u8 list option"
  lz4_guess_ratio :: "u8 list \<Rightarrow> nat \<Rightarrow> int \<Rightarrow> real"
  guess_transposed_lz_ratio :: "u8 list \<Rightarrow> nat \<Rightarrow> nat \<Rightarrow> int \<Rightarrow> bool \<Rightarrow> real"
  shuffle_fn :: "nat \<Rightarrow> nat \<Rightarrow> u8 list \<Rightarrow> u8 list"
  unshuffle_fn :: "nat \<Rightarrow> nat \<Rightarrow> u8 list \<Rightarrow> u8 list"
  cpu :: cpu_features

text \<open>
  What one call of the superblock encoder reads from outside its arguments: the shared
  flag \<open>finish_memcpy\<close>, the speed the budget requests, the entropy level the budget
  code finds after block compression (lines 520-535) and at the labels
  (\<open>clevel_for_remaining\<close>), whether the scratch buffers could be allocated, what
  the first scratch buffer holds before the call and what the second one holds when
  \<open>delta\<close> writes into it.
\<close>

record env =
  finish_memcpy_now :: bool
  target_speed_now :: real
  block_zstd_level :: int
  remaining_level :: int
  buffers_ok :: bool
  buffer1_before :: "u8 list"
  buffer2_before_delta :: "u8 list"

text \<open>The end of every strategy: fall back to \<open>MEMCPY\<close> when the coder failed or its
  output is larger than the input, else write the code and the 3-byte length.\<close>

definition emit_record :: "u8 \<Rightarrow> u8 list \<Rightarrow> nat \<Rightarrow> stenos_error + u8 list" where
  "emit_record code payload dst_size =
     (if 4 + length payload > dst_size then Inl DstOverflow
      else Inr (code # write_uint32_3 (length payload) @ payload))"

definition finish_strategy ::
  "u8 \<Rightarrow> stenos_error + u8 list \<Rightarrow> u8 list \<Rightarrow> nat \<Rightarrow> stenos_error + u8 list" where
  "finish_strategy code result src dst_size =
     (case result of
        Inl e \<Rightarrow> compress_memcpy src dst_size
      | Inr payload \<Rightarrow>
          if length payload > length src then compress_memcpy src dst_size
          else emit_record code payload dst_size)"

definition compress_generic_superblock ::
  "coders \<Rightarrow> env \<Rightarrow> stenos_context \<Rightarrow> u8 list \<Rightarrow> nat \<Rightarrow> nat \<Rightarrow> stenos_error + u8 list" where
  "compress_generic_superblock c ev ctx src bytesoftype dst_size =
     (let bytes = length src;
          time_limited = (nanoseconds (t ctx) \<noteq> 0);
          block_level = 2;
          lvl = (if time_limited then 9 else level ctx);
          MEMCPY = compress_memcpy src dst_size;
          label_level = (\<lambda>zstd_level. if time_limited then remaining_level ev else zstd_level);
          BLOCK = finish_strategy STENOS_FRAME_HEADER_BLOCK
                    (block_compress_generic c src bytesoftype (dst_size - 4) block_level lvl (t ctx)
                       None None)
                    src dst_size;
          ZSTD = (\<lambda>zstd_level.
                    if time_limited \<and> remaining_level ev \<le> 0 then MEMCPY
                    else finish_strategy STENOS_FRAME_HEADER_ZSTD
                           (zstd_compress_with_context c (dst_size - 4) src (label_level zstd_level))
                           src dst_size);
          TRANSPOSED_ZSTD = (\<lambda>zstd_level buffer1.
                    if time_limited \<and> remaining_level ev \<le> 0 then MEMCPY
                    else finish_strategy STENOS_FRAME_HEADER_TRANSPOSED_ZSTD
                           (zstd_compress_with_context c (dst_size - 4) buffer1 (label_level zstd_level))
                           src dst_size);
          TRANSPOSED_DELTA_ZSTD = (\<lambda>zstd_level buffer1.
                    if time_limited \<and> remaining_level ev \<le> 0 then MEMCPY
                    else finish_strategy STENOS_FRAME_HEADER_TRANSPOSED_DELTA_ZSTD
                           (zstd_compress_with_context c (dst_size - 4)
                              (take bytes (delta (cpu c) buffer1 (buffer2_before_delta ev) bytes))
                              (label_level zstd_level))
                           src dst_size)
      in if dst_size < 4 then Inl DstOverflow
         else if bytes = 0 \<or> finish_memcpy_now ev \<or> (level ctx = 0 \<and> \<not> time_limited) then MEMCPY
         else if bytes < 128 then ZSTD 0
         else if \<not> time_limited \<and> bytesoftype > 1 \<and> lvl < 2 then BLOCK
         else
           let zstd_level = (if time_limited then 0
                             else if bytesoftype > 1
                                  then (if lvl - 1 \<ge> 4 then lvl - 1 + 1 else lvl - 1)
                                  else lvl);
               target_speed = (if time_limited then target_speed_now ev else 0);
               glevel = (if time_limited then
                           (if target_speed < 10000000 then 9
                            else if target_speed < 40000000 then 8
                            else if target_speed < 100000000 then 7
                            else if target_speed < 200000000 then 6
                            else if target_speed < 400000000 then 5
                            else 2)
                         else lvl);
               lz_ratio0 = (if target_speed < 600000000 \<and> bytes \<ge> bytesoftype * 256
                            then lz4_guess_ratio c src (bytes div 16) (10 - glevel)
                            else 1.1)
           in if target_speed > 1500000000 \<and> bytesoftype > 1 then BLOCK
              else if \<not> buffers_ok ev then ZSTD zstd_level
              else
                let buffer1 = (if bytesoftype > 1 then shuffle_fn c bytesoftype bytes src
                               else buffer1_before ev);
                    guess = (bytesoftype > 1 \<and> target_speed < 600000000
                             \<and> bytes \<ge> bytesoftype * 256 \<and> lvl > 2);
                    tr0 = (if guess then guess_transposed_lz_ratio c buffer1 bytesoftype bytes glevel False
                           else 0);
                    lz_ratio1 = (if guess \<and> tr0 > lz_ratio0 then tr0 else lz_ratio0);
                    trd0 = (if guess
                            then guess_transposed_lz_ratio c buffer1 bytesoftype bytes glevel True * 1.1
                            else 0);
                    lz_ratio2 = (if guess \<and> trd0 > lz_ratio1 then trd0 else lz_ratio1);
                    favor = (guess \<and> target_speed < 2000000 \<and> lvl = 9);
                    lz_transposed_ratio = (if favor then tr0 * 1.6 else tr0);
                    lz_transposed_delta_ratio = (if favor then trd0 * 1.6 else trd0);
                    lz_ratio = (if favor then lz_ratio2 * 1.6 else lz_ratio2);
                    cblock = block_compress_generic c src bytesoftype bytes block_level lvl (t ctx)
                               (Some lz_ratio) (if bytesoftype > 1 then Some buffer1 else None)
                in case cblock of
                     Inl e \<Rightarrow>
                       if lz_ratio > 1.4 \<and> lz_ratio = lz_transposed_ratio
                       then TRANSPOSED_ZSTD zstd_level buffer1
                       else if lz_ratio > 1.4 \<and> lz_ratio = lz_transposed_delta_ratio
                       then TRANSPOSED_DELTA_ZSTD zstd_level buffer1
                       else ZSTD zstd_level
                   | Inr blk \<Rightarrow>
                       if length blk > bytes then
                         (if lz_ratio > 1.4 \<and> lz_ratio = lz_transposed_ratio
                          then TRANSPOSED_ZSTD zstd_level buffer1
                          else if lz_ratio > 1.4 \<and> lz_ratio = lz_transposed_delta_ratio
                          then TRANSPOSED_DELTA_ZSTD zstd_level buffer1
                          else ZSTD zstd_level)
                       else
                         let zstd_level' = (if time_limited then block_zstd_level ev else zstd_level);
                             NO_ZSTD = emit_record STENOS_FRAME_HEADER_BLOCK blk dst_size
                         in if time_limited \<and> zstd_level' < 1 then NO_ZSTD
                            else
                              case zstd_compress_with_context c (dst_size - 4) blk zstd_level' of
                                Inl e \<Rightarrow> NO_ZSTD
                              | Inr z \<Rightarrow>
                                  if length z > length blk then NO_ZSTD
                                  else emit_record STENOS_FRAME_HEADER_BLOCK_ZSTD z dst_size)"

section \<open>stenos.cpp: the frame encoder\<close>

text \<open>
  What a call of the frame encoder or decoder reads from the host besides its arguments:
  the per-superblock readings above (by index of the superblock in the frame), whether
  \<open>ensure_has_buffers\<close> succeeds, whether the buffer of a thread slot can be allocated,
  whether the thread pool accepts the tasks, and for the decoder the state of its
  scratch buffer.
\<close>

record denv =
  buffer_ok :: bool
  buffer_before :: "u8 list"
  byte_before_buffer :: u8

record host =
  env_of :: "nat \<Rightarrow> env"
  denv_of :: "nat \<Rightarrow> denv"
  ensure_has_buffers_ok :: bool
  thread_buffer_ok :: "nat \<Rightarrow> bool"
  pool_push_ok :: bool

text \<open>
  The frame encoder is modelled by the bytes it has written so far, \<open>out\<close>: the
  pointer \<open>dst\<close> of the code is \<open>length out\<close> and \<open>dst_end - dst\<close> is
  \<open>dst_size - length out\<close>. The state of the single-thread loop is the context (for the
  counter \<open>processed_bytes\<close>) and \<open>out\<close>; the source pointer is \<open>i * superblock_size\<close>.
\<close>

definition add_processed :: "stenos_context \<Rightarrow> nat \<Rightarrow> stenos_context" where
  "add_processed opts k =
     (if nanoseconds (t opts) \<noteq> 0
      then opts\<lparr>t := (t opts)\<lparr>processed_bytes := processed_bytes (t opts) + k\<rparr>\<rparr>
      else opts)"

definition compress_mono_step ::
  "coders \<Rightarrow> host \<Rightarrow> u8 list \<Rightarrow> nat \<Rightarrow> nat \<Rightarrow> nat \<Rightarrow> nat
    \<Rightarrow> stenos_error + stenos_context \<times> u8 list \<Rightarrow> stenos_error + stenos_context \<times> u8 list" where
  "compress_mono_step c h src bytesoftype dst_size super_block_count i st =
     (case st of
        Inl e \<Rightarrow> Inl e
      | Inr (opts, out) \<Rightarrow>
          let srcp = i * superblock_size opts;
              in_size = (if i = super_block_count - 1 then length src - srcp
                         else superblock_size opts)
          in case compress_generic_superblock c (env_of h i) opts (take in_size (drop srcp src))
                    bytesoftype (dst_size - length out) of
               Inl e \<Rightarrow> Inl e
             | Inr r \<Rightarrow> Inr (add_processed opts in_size, out @ r))"

definition compress_mono ::
  "coders \<Rightarrow> host \<Rightarrow> stenos_context \<Rightarrow> u8 list \<Rightarrow> nat \<Rightarrow> nat \<Rightarrow> nat \<Rightarrow> u8 list
    \<Rightarrow> stenos_error + u8 list" where
  "compress_mono c h opts src bytesoftype dst_size super_block_count out =
     (if \<not> ensure_has_buffers_ok h then Inl Alloc
      else case fold (compress_mono_step c h src bytesoftype dst_size super_block_count)
                  [0..<super_block_count] (Inr (opts, out)) of
             Inl e \<Rightarrow> Inl e
           | Inr (opts', out') \<Rightarrow> Inr out')"

text \<open>
  One wave of the multithreaded encoder at level 0 (\<open>raw_memcpy\<close>): thread \<open>idx\<close> copies
  its superblock to \<open>dst + idx * (superblock_size + 4)\<close> and the result of
  \<open>compress_memcpy\<close> is dropped; only the pointer is checked after the wave. Every
  superblock of a frame but the last has \<open>superblock_size\<close> bytes, so the records of a
  wave are adjacent. A record whose \<open>compress_memcpy\<close> failed writes nothing.
\<close>

definition wave_input :: "u8 list \<Rightarrow> nat \<Rightarrow> nat \<Rightarrow> nat \<Rightarrow> u8 list" where
  "wave_input src srcp S idx = take S (drop (srcp + idx * S) src)"

definition memcpy_wave ::
  "u8 list \<Rightarrow> nat \<Rightarrow> nat \<Rightarrow> nat \<Rightarrow> nat \<times> u8 list \<Rightarrow> stenos_error + nat \<times> u8 list" where
  "memcpy_wave src S dst_size thread_count st =
     (case st of (srcp, out) \<Rightarrow>
        let recs = map (\<lambda>idx. compress_memcpy (wave_input src srcp S idx)
                                 (dst_size - (length out + idx * (S + 4))))
                       [0..<thread_count];
            memcpy_size = sum_list (map (\<lambda>idx. length (wave_input src srcp S idx)) [0..<thread_count])
        in if length out + memcpy_size + thread_count * 4 > dst_size then Inl DstOverflow
           else Inr (srcp + memcpy_size,
                     out @ concat (map (\<lambda>r. case r of Inl e \<Rightarrow> [] | Inr bs \<Rightarrow> bs) recs)))"

text \<open>
  One wave of the multithreaded encoder at the other levels: thread \<open>idx\<close> encodes
  superblock \<open>base + idx\<close> into its own buffer of \<open>superblock_size + 4\<close> bytes; then the
  results are checked in order (a missing buffer is \<open>STENOS_ERROR_ALLOC\<close>, any error of
  a thread is \<open>STENOS_ERROR_DST_OVERFLOW\<close>) and copied to the destination. The copies
  check \<open>dst + dst_size > dst_end\<close> one by one; the offsets grow, so one of them fails
  exactly when the last one does. The threads of a wave get the counter
  \<open>processed_bytes\<close> as it is when the wave starts.
\<close>

fun collect_wave :: "(stenos_error + u8 list) option list \<Rightarrow> stenos_error + u8 list list" where
  "collect_wave [] = Inr []"
| "collect_wave (None # rs) = Inl Alloc"
| "collect_wave (Some (Inl e) # rs) = Inl DstOverflow"
| "collect_wave (Some (Inr r) # rs) =
     (case collect_wave rs of Inl e \<Rightarrow> Inl e | Inr xs \<Rightarrow> Inr (r # xs))"

definition compress_wave ::
  "coders \<Rightarrow> host \<Rightarrow> u8 list \<Rightarrow> nat \<Rightarrow> nat \<Rightarrow> nat \<Rightarrow> nat
    \<Rightarrow> stenos_context \<times> nat \<times> u8 list \<Rightarrow> stenos_error + stenos_context \<times> nat \<times> u8 list" where
  "compress_wave c h src bytesoftype dst_size base thread_count st =
     (case st of (opts, srcp, out) \<Rightarrow>
        let S = superblock_size opts;
            results = map (\<lambda>idx. if thread_buffer_ok h idx
                                  then Some (compress_generic_superblock c (env_of h (base + idx)) opts
                                               (wave_input src srcp S idx) bytesoftype (S + 4))
                                  else None)
                          [0..<thread_count];
            processed = sum_list (map (\<lambda>idx. length (wave_input src srcp S idx)) [0..<thread_count])
        in case collect_wave results of
             Inl e \<Rightarrow> Inl e
           | Inr recs \<Rightarrow>
               if length out + length (concat recs) > dst_size then Inl DstOverflow
               else Inr (add_processed opts processed, srcp + thread_count * S, out @ concat recs))"

text \<open>
  The loop \<open>while (chunks)\<close> over the waves. Here \<open>nthreads\<close> is the local
  \<open>threads\<close> of the code, \<open>min opts->threads super_block_count\<close>, at least 2 in every
  call (the multithreaded path is taken when \<open>opts->threads > 1\<close> and there are at least
  two superblocks); the test \<open>nthreads = 0\<close> only makes the recursion total.
\<close>

function wave_loop ::
  "(nat \<Rightarrow> nat \<Rightarrow> 'st \<Rightarrow> stenos_error + 'st) \<Rightarrow> nat \<Rightarrow> nat \<Rightarrow> nat \<Rightarrow> 'st \<Rightarrow> stenos_error + 'st" where
  "wave_loop wave super_block_count nthreads chunks st =
     (if chunks = 0 \<or> nthreads = 0 then Inr st
      else
        let thread_count = (if nthreads > chunks then chunks else nthreads)
        in case wave (super_block_count - chunks) thread_count st of
             Inl e \<Rightarrow> Inl e
           | Inr st' \<Rightarrow> wave_loop wave super_block_count nthreads (chunks - thread_count) st')"
  by pat_completeness auto
termination
  by (relation "measure (\<lambda>(wave, super_block_count, nthreads, chunks, st). chunks)") auto

declare wave_loop.simps [simp del]

definition compress_multi ::
  "coders \<Rightarrow> host \<Rightarrow> stenos_context \<Rightarrow> u8 list \<Rightarrow> nat \<Rightarrow> nat \<Rightarrow> nat \<Rightarrow> u8 list
    \<Rightarrow> stenos_error + u8 list" where
  "compress_multi c h opts src bytesoftype dst_size super_block_count out =
     (let S = superblock_size opts;
          bytes = length src;
          super_block_remaining = bytes mod S;
          raw_memcpy = (nanoseconds (t opts) = 0 \<and> level opts = 0);
          nthreads = min (nat (threads opts)) super_block_count
      in if raw_memcpy then
           (let out_size = super_block_count * 4 + (super_block_count - 1) * S + super_block_remaining
            in if length out + out_size > dst_size then Inl DstOverflow
               else if \<not> pool_push_ok h then Inl Alloc
               else case wave_loop (\<lambda>base thread_count. memcpy_wave src S dst_size thread_count)
                           super_block_count nthreads super_block_count (0, out) of
                      Inl e \<Rightarrow> Inl e
                    | Inr (srcp, out') \<Rightarrow> Inr out')
         else if \<not> ensure_has_buffers_ok h then Inl Alloc
         else if \<not> pool_push_ok h then Inl Alloc
         else case wave_loop (compress_wave c h src bytesoftype dst_size)
                     super_block_count nthreads super_block_count (opts, 0, out) of
                Inl e \<Rightarrow> Inl e
              | Inr (opts', srcp, out') \<Rightarrow> Inr out')"

text \<open>
  \<open>stenos_compress_generic\<close>: the result is the error code, or the frame (the first
  \<open>r\<close> bytes of the destination, \<open>r\<close> the size returned).
\<close>

definition stenos_compress_generic ::
  "coders \<Rightarrow> host \<Rightarrow> stenos_context \<Rightarrow> u8 list \<Rightarrow> nat \<Rightarrow> nat \<Rightarrow> stenos_error + u8 list" where
  "stenos_compress_generic c h opts0 src bytesoftype dst_size =
     (let bytes = length src
      in case prepare opts0 bytesoftype bytes of
           (Some e, opts) \<Rightarrow> Inl e
         | (None, opts) \<Rightarrow>
             let S = superblock_size opts;
                 super_block_remaining = bytes mod S;
                 super_block_count = bytes div S + (if super_block_remaining \<noteq> 0 then 1 else 0)
             in if 8 > dst_size then Inl DstOverflow
                else
                  let out8 = of_int (shift opts) # write_uint64_7 bytes;
                      custom = (custom_blocksize_shift opts \<noteq> STENOS_NO_BLOCK_SHIFT)
                  in if custom \<and> 12 > dst_size then Inl DstOverflow
                     else
                       let out = (if custom then out8 @ write_LE_32 S else out8)
                       in if bytes = 0 then Inr out
                          else if threads opts \<le> 1 \<or> super_block_count = 1
                          then compress_mono c h opts src bytesoftype dst_size super_block_count out
                          else compress_multi c h opts src bytesoftype dst_size super_block_count out)"

section \<open>stenos.cpp: the frame decoder\<close>

text \<open>\<open>memcpy\<close> and the other writes at an offset of a buffer.\<close>

definition write_at :: "u8 list \<Rightarrow> nat \<Rightarrow> u8 list \<Rightarrow> u8 list" where
  "write_at dst p bs = take p dst @ bs @ drop (p + length bs) dst"

text \<open>
  \<open>decompress_generic_superblock\<close>: \<open>src\<close> is the payload of the record (\<open>csize\<close> bytes).
  The result is the error, or the bytes written at \<open>dst\<close>; the code then returns
  \<open>dsize\<close>.
\<close>

definition decompress_generic_superblock ::
  "coders \<Rightarrow> denv \<Rightarrow> stenos_context \<Rightarrow> u8 \<Rightarrow> u8 list \<Rightarrow> nat \<Rightarrow> nat \<Rightarrow> stenos_error + u8 list" where
  "decompress_generic_superblock c ev ctx code src bytesoftype dsize =
     (let csize = length src
      in if code = STENOS_FRAME_HEADER_BLOCK then
           (case block_decompress_generic c src bytesoftype dsize of
              Inl e \<Rightarrow> Inl InvalidInput
            | Inr out \<Rightarrow> Inr out)
         else if code = STENOS_FRAME_HEADER_ZSTD then
           (case ZSTD_decompress c dsize src of
              None \<Rightarrow> Inl InvalidInput
            | Some out \<Rightarrow> Inr out)
         else if code = STENOS_FRAME_HEADER_TRANSPOSED_ZSTD then
           (if \<not> buffer_ok ev then Inl Alloc
            else case ZSTD_decompress c dsize src of
                   None \<Rightarrow> Inl InvalidInput
                 | Some z \<Rightarrow>
                     if length z \<noteq> dsize then Inl InvalidInput
                     else Inr (unshuffle_fn c bytesoftype dsize z))
         else if code = STENOS_FRAME_HEADER_TRANSPOSED_DELTA_ZSTD then
           (if \<not> buffer_ok ev then Inl Alloc
            else case ZSTD_decompress c dsize src of
                   None \<Rightarrow> Inl InvalidInput
                 | Some z \<Rightarrow>
                     if length z \<noteq> dsize then Inl InvalidInput
                     else Inr (unshuffle_fn c bytesoftype dsize
                                 (take dsize (delta_inv (cpu c) (byte_before_buffer ev) z
                                                (buffer_before ev) dsize))))
         else if code = STENOS_FRAME_HEADER_BLOCK_ZSTD then
           (if \<not> buffer_ok ev then Inl Alloc
            else case ZSTD_decompress c (superblock_size ctx) src of
                   None \<Rightarrow> Inl InvalidInput
                 | Some z \<Rightarrow>
                     (case block_decompress_generic c z bytesoftype dsize of
                        Inl e \<Rightarrow> Inl InvalidInput
                      | Inr out \<Rightarrow> Inr out))
         else if code = STENOS_FRAME_HEADER_COPY then
           (if dsize \<noteq> csize then Inl InvalidInput else Inr src)
         else Inl InvalidInput)"

text \<open>
  The state of the decoder loops: the offsets of \<open>src\<close> and \<open>dst\<close> and the destination
  buffer. \<open>(unsigned)\<close> is a truncation to 32 bits.
\<close>

definition decompress_mono_step ::
  "coders \<Rightarrow> host \<Rightarrow> stenos_context \<Rightarrow> u8 list \<Rightarrow> nat \<Rightarrow> nat \<Rightarrow> nat \<Rightarrow> nat
    \<Rightarrow> stenos_error + nat \<times> nat \<times> u8 list \<Rightarrow> stenos_error + nat \<times> nat \<times> u8 list" where
  "decompress_mono_step c h opts src bytesoftype super_block_remaining super_block_count i st =
     (case st of
        Inl e \<Rightarrow> Inl e
      | Inr (srcp, dstp, dst) \<Rightarrow>
          if srcp + 4 > length src then Inl SrcOverflow
          else
            let code = src ! srcp;
                csize = read_uint32_3 src (srcp + 1);
                dsize = (if i = super_block_count - 1 then super_block_remaining mod 2 ^ 32
                         else superblock_size opts mod 2 ^ 32);
                srcp' = srcp + 4
            in if srcp' + csize > length src \<or> dstp + dsize > length dst then Inl InvalidInput
               else
                 case decompress_generic_superblock c (denv_of h i) opts code
                        (take csize (drop srcp' src)) bytesoftype dsize of
                   Inl e \<Rightarrow> Inl e
                 | Inr bs \<Rightarrow> Inr (srcp' + csize, dstp + dsize, write_at dst dstp bs))"

definition decompress_mono ::
  "coders \<Rightarrow> host \<Rightarrow> stenos_context \<Rightarrow> u8 list \<Rightarrow> nat \<Rightarrow> nat \<Rightarrow> nat \<Rightarrow> nat \<Rightarrow> nat \<Rightarrow> u8 list
    \<Rightarrow> stenos_error + nat \<times> u8 list" where
  "decompress_mono c h opts src bytesoftype decompressed super_block_remaining super_block_count
     srcp dst =
     (if \<not> ensure_has_buffers_ok h then Inl Alloc
      else case fold (decompress_mono_step c h opts src bytesoftype super_block_remaining
                        super_block_count)
                  [0..<super_block_count] (Inr (srcp, 0, dst)) of
             Inl e \<Rightarrow> Inl e
           | Inr (srcp', output_size, dst') \<Rightarrow>
               if output_size \<noteq> decompressed then Inl InvalidInput
               else Inr (decompressed, dst'))"

text \<open>The multithreaded decoder: the struct \<open>Block\<close> (its fields with the prefix \<open>bl_\<close>;
  \<open>src\<close> and \<open>dst\<close> are offsets, \<open>ret\<close> is computed by the wave), the loop that builds the blocks of a wave, and the
  wave.\<close>

record Block =
  bl_csize :: nat
  bl_dsize :: nat
  bl_code :: u8
  bl_src :: nat
  bl_dst :: nat

definition build_block ::
  "u8 list \<Rightarrow> nat \<Rightarrow> nat \<Rightarrow> nat \<Rightarrow> nat \<Rightarrow> nat
    \<Rightarrow> stenos_error + nat \<times> nat \<times> Block list \<Rightarrow> stenos_error + nat \<times> nat \<times> Block list" where
  "build_block src_buf dst_size S super_block_remaining chunks i st =
     (case st of
        Inl e \<Rightarrow> Inl e
      | Inr (srcp, dstp, blocks) \<Rightarrow>
          if srcp + 4 \<ge> length src_buf then Inl SrcOverflow
          else
            let code = src_buf ! srcp;
                csize = read_uint32_3 src_buf (srcp + 1);
                dsize = (if chunks - i - 1 = 0 then super_block_remaining mod 2 ^ 32
                         else S mod 2 ^ 32);
                srcp' = srcp + 4
            in if srcp' + csize > length src_buf \<or> dstp + dsize > dst_size then Inl InvalidInput
               else Inr (srcp' + csize, dstp + dsize,
                         blocks @ [\<lparr>bl_csize = csize, bl_dsize = dsize, bl_code = code,
                                    bl_src = srcp', bl_dst = dstp\<rparr>]))"

definition run_block ::
  "coders \<Rightarrow> host \<Rightarrow> stenos_context \<Rightarrow> u8 list \<Rightarrow> nat \<Rightarrow> nat \<Rightarrow> Block list \<Rightarrow> nat
    \<Rightarrow> stenos_error + u8 list \<Rightarrow> stenos_error + u8 list" where
  "run_block c h opts src_buf bytesoftype base blocks i st =
     (case st of
        Inl e \<Rightarrow> Inl e
      | Inr dst_buf \<Rightarrow>
          let bl = blocks ! i
          in case decompress_generic_superblock c (denv_of h (base + i)) opts (bl_code bl)
                    (take (bl_csize bl) (drop (bl_src bl) src_buf)) bytesoftype (bl_dsize bl) of
               Inl e \<Rightarrow> Inl e
             | Inr bs \<Rightarrow> Inr (write_at dst_buf (bl_dst bl) bs))"

definition decompress_wave ::
  "coders \<Rightarrow> host \<Rightarrow> stenos_context \<Rightarrow> u8 list \<Rightarrow> nat \<Rightarrow> nat \<Rightarrow> nat \<Rightarrow> nat \<Rightarrow> nat
    \<Rightarrow> nat \<times> nat \<times> u8 list \<Rightarrow> stenos_error + nat \<times> nat \<times> u8 list" where
  "decompress_wave c h opts src_buf bytesoftype super_block_remaining super_block_count base
     thread_count st =
     (case st of (srcp, dstp, dst_buf) \<Rightarrow>
        case fold (build_block src_buf (length dst_buf) (superblock_size opts) super_block_remaining
                     (super_block_count - base))
               [0..<thread_count] (Inr (srcp, dstp, [])) of
          Inl e \<Rightarrow> Inl e
        | Inr (srcp', dstp', blocks) \<Rightarrow>
            if \<not> pool_push_ok h then Inl Alloc
            else case fold (run_block c h opts src_buf bytesoftype base blocks) [0..<thread_count]
                        (Inr dst_buf) of
                   Inl e \<Rightarrow> Inl e
                 | Inr dst_buf' \<Rightarrow> Inr (srcp', dstp', dst_buf'))"

definition decompress_multi ::
  "coders \<Rightarrow> host \<Rightarrow> stenos_context \<Rightarrow> u8 list \<Rightarrow> nat \<Rightarrow> nat \<Rightarrow> nat \<Rightarrow> nat \<Rightarrow> nat \<Rightarrow> u8 list
    \<Rightarrow> stenos_error + nat \<times> u8 list" where
  "decompress_multi c h opts src_buf bytesoftype decompressed super_block_remaining
     super_block_count srcp dst_buf =
     (let nthreads = min (nat (threads opts)) super_block_count
      in if \<not> ensure_has_buffers_ok h then Inl Alloc
         else case wave_loop (decompress_wave c h opts src_buf bytesoftype super_block_remaining
                                super_block_count)
                     super_block_count nthreads super_block_count (srcp, 0, dst_buf) of
                Inl e \<Rightarrow> Inl e
              | Inr (srcp', output_size, dst_buf') \<Rightarrow>
                  if output_size \<noteq> decompressed then Inl InvalidInput
                  else Inr (decompressed, dst_buf'))"

text \<open>
  \<open>stenos_decompress_generic\<close>: \<open>src\<close> is the frame, \<open>dst\<close> the destination buffer
  as it is before the call (its length is \<open>dst_size\<close>). The result is the error code, or
  the size returned and the destination buffer after the call. A custom superblock size
  of 0 in the header makes the code divide by zero.
\<close>

definition stenos_decompress_generic ::
  "coders \<Rightarrow> host \<Rightarrow> stenos_context \<Rightarrow> u8 list \<Rightarrow> nat \<Rightarrow> u8 list \<Rightarrow> stenos_error + nat \<times> u8 list" where
  "stenos_decompress_generic c h opts src_buf bytesoftype dst_buf =
     (let size = length src_buf;
          dst_size = length dst_buf
      in if bytesoftype = 0 \<or> bytesoftype \<ge> STENOS_MAX_BYTESOFTYPE then Inl InvalidBytesoftype
         else if 8 > size then Inl SrcOverflow
         else
           let shift = src_buf ! 0
           in if shift > 4 \<and> shift \<noteq> 255 then Inl InvalidInput
              else
                let decompressed = read_uint64_7 src_buf 1
                in if decompressed > dst_size then Inl DstOverflow
                   else if decompressed = 0 then Inr (0, dst_buf)
                   else
                     let block_size = bytesoftype * 256
                     in if shift = 255 \<and> 12 > size then Inl SrcOverflow
                        else
                          let S = (if shift = 255 then read_LE_32 src_buf 8
                                   else super_block_size block_size * 2 ^ unat shift);
                              srcp = (if shift = 255 then 12 else 8);
                              opts' = opts\<lparr>superblock_size := S\<rparr>
                          in if S = 0 then Inl Crash
                             else
                               let super_block_remaining = decompressed mod S;
                                   super_block_count =
                                     decompressed div S
                                     + (if super_block_remaining \<noteq> 0 then 1 else 0)
                               in if threads opts' \<le> 1 \<or> super_block_count = 1
                                  then decompress_mono c h opts' src_buf bytesoftype decompressed
                                         super_block_remaining super_block_count srcp dst_buf
                                  else decompress_multi c h opts' src_buf bytesoftype decompressed
                                         super_block_remaining super_block_count srcp dst_buf)"

section \<open>A host to run the codec on\<close>

text \<open>
  A host without SSE4.1, where \<open>block_compress_generic\<close> and
  \<open>block_decompress_generic\<close> return \<open>STENOS_ERROR_INVALID_INSTRUCTION_SET\<close>, with an
  entropy coder that always fails, so that every superblock is stored; no allocation
  fails.
\<close>

definition plain_coders :: coders where
  "plain_coders =
     \<lparr>block_compress_generic = (\<lambda>src bytesoftype dst_size block_level full_level tc ratio shuffled.
                                    Inl InvalidInstructionSet),
      block_decompress_generic = (\<lambda>src bytesoftype bytes. Inl InvalidInstructionSet),
      zstd_compress_with_context = (\<lambda>cap src lvl. Inl ZstdInternal),
      ZSTD_decompress = (\<lambda>cap src. None),
      lz4_guess_ratio = (\<lambda>src n acceleration. 1),
      guess_transposed_lz_ratio = (\<lambda>src bytesoftype bytes lvl with_delta. 1),
      shuffle_fn = (\<lambda>bytesoftype bytes src. src),
      unshuffle_fn = (\<lambda>bytesoftype bytes src. src),
      cpu = \<lparr>HAS_SSE2 = False, HAS_SSE3 = False, HAS_SSE41 = False, HAS_AVX2 = False\<rparr>\<rparr>"

definition plain_env :: env where
  "plain_env =
     \<lparr>finish_memcpy_now = False, target_speed_now = 0, block_zstd_level = 0, remaining_level = 0,
      buffers_ok = True, buffer1_before = [], buffer2_before_delta = []\<rparr>"

definition plain_host :: host where
  "plain_host =
     \<lparr>env_of = (\<lambda>i. plain_env),
      denv_of = (\<lambda>i. \<lparr>buffer_ok = True, buffer_before = [], byte_before_buffer = 0\<rparr>),
      ensure_has_buffers_ok = True, thread_buffer_ok = (\<lambda>i. True), pool_push_ok = True\<rparr>"

section \<open>shuffle-generic.h: byte transposition, scalar form\<close>

text \<open>
  \<open>shuffle_generic_inline\<close> and \<open>unshuffle_generic_inline\<close>. The destination is
  passed as it is before the call and returned as it is after it. \<open>int32_t\<close> is \<open>nat\<close>:
  the sizes are positive and the callers pass block sizes below \<open>2^31\<close>. The plain loop
  and the loop unrolled by 8 are both modelled; \<open>sizes\<close> is the table of the unrolled
  loops.
\<close>

definition sizes :: "nat \<Rightarrow> nat list" where
  "sizes type_size = map (\<lambda>m. type_size * m) [0..<8]"

definition memcpy :: "u8 list \<Rightarrow> nat \<Rightarrow> u8 list \<Rightarrow> nat \<Rightarrow> nat \<Rightarrow> u8 list" where
  "memcpy dest dp src sp n = fold (\<lambda>k d. d[dp + k := src ! (sp + k)]) [0..<n] dest"

definition shuffle_generic_inline :: "nat \<Rightarrow> nat \<Rightarrow> nat \<Rightarrow> u8 list \<Rightarrow> u8 list \<Rightarrow> u8 list" where
  "shuffle_generic_inline type_size vectorizable_blocksize blocksize src dest =
     (let neblock_quot = blocksize div type_size;
          neblock_rem = blocksize mod type_size;
          vectorizable_elements = vectorizable_blocksize div type_size;
          inner_size = neblock_quot - vectorizable_elements;
          dest1 =
            (if inner_size < 256 \<or> inner_size mod 8 \<noteq> 0 then
               fold (\<lambda>j d.
                  fold (\<lambda>i d. d[j * neblock_quot + i := src ! (i * type_size + j)])
                       [vectorizable_elements..<neblock_quot] d)
                 [0..<type_size] dest
             else
               fold (\<lambda>j d.
                  fold (\<lambda>i d.
                     fold (\<lambda>m d. d[j * neblock_quot + i + m
                                       := src ! (j + i * type_size + sizes type_size ! m)])
                          [0..<8] d)
                       (map (\<lambda>q. vectorizable_elements + 8 * q) [0..<inner_size div 8]) d)
                 [0..<type_size] dest)
      in memcpy dest1 (blocksize - neblock_rem) src (blocksize - neblock_rem) neblock_rem)"

text \<open>\<open>read_LE_64\<close> and the byte \<open>(uint8_t)(val >> 8 * m)\<close> of the unrolled inverse.\<close>

definition read_LE_64 :: "u8 list \<Rightarrow> nat \<Rightarrow> 64 word" where
  "read_LE_64 src p = of_nat (read_le (take 8 (drop p src)))"

definition unshuffle_generic_inline :: "nat \<Rightarrow> nat \<Rightarrow> nat \<Rightarrow> u8 list \<Rightarrow> u8 list \<Rightarrow> u8 list" where
  "unshuffle_generic_inline type_size vectorizable_blocksize blocksize src dest =
     (let neblock_quot = blocksize div type_size;
          neblock_rem = blocksize mod type_size;
          vectorizable_elements = vectorizable_blocksize div type_size;
          inner_size = neblock_quot - vectorizable_elements;
          dest1 =
            (if inner_size < 256 \<or> inner_size mod 8 \<noteq> 0 then
               fold (\<lambda>i d.
                  fold (\<lambda>j d. d[i * type_size + j := src ! (j * neblock_quot + i)])
                       [0..<type_size] d)
                 [vectorizable_elements..<neblock_quot] dest
             else
               fold (\<lambda>j d.
                  fold (\<lambda>i d.
                     let val = read_LE_64 src (j * neblock_quot + i)
                     in fold (\<lambda>m d. d[i * type_size + j + sizes type_size ! m
                                          := ucast (drop_bit (8 * m) val)])
                             [0..<8] d)
                       (map (\<lambda>q. vectorizable_elements + 8 * q) [0..<inner_size div 8]) d)
                 [0..<type_size] dest)
      in memcpy dest1 (blocksize - neblock_rem) src (blocksize - neblock_rem) neblock_rem)"

section \<open>shuffle-sse2.cpp: byte transposition with SSE2\<close>

text \<open>
  The intrinsics of the kernels. \<open>_mm_unpacklo_epiN(a, b)\<close> interleaves the lanes of
  \<open>N\<close> bits of the low halves of \<open>a\<close> and \<open>b\<close>, \<open>_mm_unpackhi_epiN\<close> those of the
  high halves. \<open>_mm_shuffle_epi32(a, imm)\<close> takes for its 32-bit lane \<open>i\<close> the lane of
  \<open>a\<close> that the bits \<open>2i+1..2i\<close> of \<open>imm\<close> select; \<open>_mm_shufflelo_epi16\<close> and
  \<open>_mm_shufflehi_epi16\<close> do so on the four 16-bit lanes of the low and of the high half
  and copy the other half. \<open>_mm_maskmoveu_si128(a, mask, p)\<close> stores the byte \<open>i\<close> of
  \<open>a\<close> at \<open>p + i\<close> when the top bit of the byte \<open>i\<close> of \<open>mask\<close> is set.
\<close>

definition interleave_lanes :: "nat \<Rightarrow> u8 list \<Rightarrow> u8 list \<Rightarrow> u8 list" where
  "interleave_lanes g a b =
     concat (map (\<lambda>i. take g (drop (g * i) a) @ take g (drop (g * i) b)) [0..<8 div g])"

definition mm_unpacklo_epi8 :: "m128i \<Rightarrow> m128i \<Rightarrow> m128i" where
  "mm_unpacklo_epi8 a b = interleave_lanes 1 (take 8 a) (take 8 b)"

definition mm_unpackhi_epi8 :: "m128i \<Rightarrow> m128i \<Rightarrow> m128i" where
  "mm_unpackhi_epi8 a b = interleave_lanes 1 (drop 8 a) (drop 8 b)"

definition mm_unpacklo_epi16 :: "m128i \<Rightarrow> m128i \<Rightarrow> m128i" where
  "mm_unpacklo_epi16 a b = interleave_lanes 2 (take 8 a) (take 8 b)"

definition mm_unpackhi_epi16 :: "m128i \<Rightarrow> m128i \<Rightarrow> m128i" where
  "mm_unpackhi_epi16 a b = interleave_lanes 2 (drop 8 a) (drop 8 b)"

definition mm_unpacklo_epi32 :: "m128i \<Rightarrow> m128i \<Rightarrow> m128i" where
  "mm_unpacklo_epi32 a b = interleave_lanes 4 (take 8 a) (take 8 b)"

definition mm_unpackhi_epi32 :: "m128i \<Rightarrow> m128i \<Rightarrow> m128i" where
  "mm_unpackhi_epi32 a b = interleave_lanes 4 (drop 8 a) (drop 8 b)"

definition mm_unpacklo_epi64 :: "m128i \<Rightarrow> m128i \<Rightarrow> m128i" where
  "mm_unpacklo_epi64 a b = interleave_lanes 8 (take 8 a) (take 8 b)"

definition mm_unpackhi_epi64 :: "m128i \<Rightarrow> m128i \<Rightarrow> m128i" where
  "mm_unpackhi_epi64 a b = interleave_lanes 8 (drop 8 a) (drop 8 b)"

definition select_lanes :: "nat \<Rightarrow> u8 list \<Rightarrow> nat \<Rightarrow> u8 list" where
  "select_lanes g a imm = concat (map (\<lambda>i. take g (drop (g * ((imm div 4 ^ i) mod 4)) a)) [0..<4])"

definition mm_shuffle_epi32 :: "m128i \<Rightarrow> nat \<Rightarrow> m128i" where
  "mm_shuffle_epi32 a imm = select_lanes 4 a imm"

definition mm_shufflelo_epi16 :: "m128i \<Rightarrow> nat \<Rightarrow> m128i" where
  "mm_shufflelo_epi16 a imm = select_lanes 2 (take 8 a) imm @ drop 8 a"

definition mm_shufflehi_epi16 :: "m128i \<Rightarrow> nat \<Rightarrow> m128i" where
  "mm_shufflehi_epi16 a imm = take 8 a @ select_lanes 2 (drop 8 a) imm"

definition mm_maskmoveu_si128 :: "u8 list \<Rightarrow> m128i \<Rightarrow> m128i \<Rightarrow> nat \<Rightarrow> u8 list" where
  "mm_maskmoveu_si128 mem a msk p =
     fold (\<lambda>k m. if bit (msk ! k) 7 then m[p + k := a ! k] else m) [0..<16] mem"

definition mm_setr_epi8 :: "u8 list \<Rightarrow> m128i" where
  "mm_setr_epi8 values = values"

text \<open>
  The loops \<open>for (j = 0; j < vectorizable_elements; j += sizeof(__m128i))\<close> run over
  \<open>vector_steps vectorizable_elements\<close>. The arrays of registers \<open>xmm0\<close>, \<open>xmm1\<close>,
  \<open>xmm2\<close> are lists of registers; a loop that fills an array is the list of what it
  stores.
\<close>

definition vector_steps :: "nat \<Rightarrow> nat list" where
  "vector_steps vectorizable_elements = map (\<lambda>q. 16 * q) [0..<(vectorizable_elements + 15) div 16]"

definition store_vectors :: "u8 list \<Rightarrow> (nat \<Rightarrow> nat) \<Rightarrow> m128i list \<Rightarrow> u8 list" where
  "store_vectors dest addr xmm =
     fold (\<lambda>k d. mm_storeu_si128 d (addr k) (xmm ! k)) [0..<length xmm] dest"

definition shuffle2_sse2 :: "u8 list \<Rightarrow> u8 list \<Rightarrow> nat \<Rightarrow> nat \<Rightarrow> u8 list" where
  "shuffle2_sse2 dest src vectorizable_elements total_elements =
     fold (\<lambda>j dest.
        let xmm0 = map (\<lambda>k.
                      let x0 = mm_loadu_si128 src (j * 2 + k * 16);
                          x0 = mm_shufflelo_epi16 x0 0xd8;
                          x0 = mm_shufflehi_epi16 x0 0xd8;
                          x0 = mm_shuffle_epi32 x0 0xd8;
                          x1 = mm_shuffle_epi32 x0 0x4e;
                          x0 = mm_unpacklo_epi8 x0 x1;
                          x0 = mm_shuffle_epi32 x0 0xd8;
                          x1 = mm_shuffle_epi32 x0 0x4e;
                          x0 = mm_unpacklo_epi16 x0 x1
                      in mm_shuffle_epi32 x0 0xd8) [0..<2];
            xmm1 = [mm_unpacklo_epi64 (xmm0 ! 0) (xmm0 ! 1), mm_unpackhi_epi64 (xmm0 ! 0) (xmm0 ! 1)]
        in store_vectors dest (\<lambda>k. j + k * total_elements) xmm1)
       (vector_steps vectorizable_elements) dest"

definition shuffle4_sse2 :: "u8 list \<Rightarrow> u8 list \<Rightarrow> nat \<Rightarrow> nat \<Rightarrow> u8 list" where
  "shuffle4_sse2 dest src vectorizable_elements total_elements =
     fold (\<lambda>i dest.
        let xmm0 = map (\<lambda>j.
                      let x0 = mm_loadu_si128 src (i * 4 + j * 16);
                          x1 = mm_shuffle_epi32 x0 0xd8;
                          x0 = mm_shuffle_epi32 x0 0x8d;
                          x0 = mm_unpacklo_epi8 x1 x0;
                          x1 = mm_shuffle_epi32 x0 0x04e
                      in mm_unpacklo_epi16 x0 x1) [0..<4];
            xmm1 = concat (map (\<lambda>j. [mm_unpacklo_epi32 (xmm0 ! (j * 2)) (xmm0 ! (j * 2 + 1)),
                                       mm_unpackhi_epi32 (xmm0 ! (j * 2)) (xmm0 ! (j * 2 + 1))])
                               [0..<2]);
            xmm0 = concat (map (\<lambda>j. [mm_unpacklo_epi64 (xmm1 ! j) (xmm1 ! (j + 2)),
                                       mm_unpackhi_epi64 (xmm1 ! j) (xmm1 ! (j + 2))])
                               [0..<2])
        in store_vectors dest (\<lambda>j. i + j * total_elements) xmm0)
       (vector_steps vectorizable_elements) dest"

definition shuffle8_sse2 :: "u8 list \<Rightarrow> u8 list \<Rightarrow> nat \<Rightarrow> nat \<Rightarrow> u8 list" where
  "shuffle8_sse2 dest src vectorizable_elements total_elements =
     fold (\<lambda>j dest.
        let xmm1 = map (\<lambda>k.
                      let x0 = mm_loadu_si128 src (j * 8 + k * 16);
                          x1 = mm_shuffle_epi32 x0 0x4e
                      in mm_unpacklo_epi8 x0 x1) [0..<8];
            xmm0 = concat (map (\<lambda>k. [mm_unpacklo_epi16 (xmm1 ! (2 * k)) (xmm1 ! (2 * k + 1)),
                                       mm_unpackhi_epi16 (xmm1 ! (2 * k)) (xmm1 ! (2 * k + 1))])
                               [0..<4]);
            xmm1 = concat (map (\<lambda>k. let l = (if k < 2 then k else k + 2)
                                     in [mm_unpacklo_epi32 (xmm0 ! l) (xmm0 ! (l + 2)),
                                         mm_unpackhi_epi32 (xmm0 ! l) (xmm0 ! (l + 2))])
                               [0..<4]);
            xmm0 = concat (map (\<lambda>k. [mm_unpacklo_epi64 (xmm1 ! k) (xmm1 ! (k + 4)),
                                       mm_unpackhi_epi64 (xmm1 ! k) (xmm1 ! (k + 4))])
                               [0..<4])
        in store_vectors dest (\<lambda>k. j + k * total_elements) xmm0)
       (vector_steps vectorizable_elements) dest"

text \<open>The four transposition stages that \<open>shuffle16_sse2\<close> and
  \<open>shuffle16_tiled_sse2\<close> apply to 16 registers; the index \<open>l\<close> of the loops over words
  and double words is written as a function of \<open>k\<close>.\<close>

definition transpose16_stages :: "m128i list \<Rightarrow> m128i list" where
  "transpose16_stages xmm0 =
     (let xmm1 = concat (map (\<lambda>k. [mm_unpacklo_epi8 (xmm0 ! (2 * k)) (xmm0 ! (2 * k + 1)),
                                    mm_unpackhi_epi8 (xmm0 ! (2 * k)) (xmm0 ! (2 * k + 1))])
                            [0..<8]);
          xmm0 = concat (map (\<lambda>k. let l = 4 * (k div 2) + k mod 2
                                   in [mm_unpacklo_epi16 (xmm1 ! l) (xmm1 ! (l + 2)),
                                       mm_unpackhi_epi16 (xmm1 ! l) (xmm1 ! (l + 2))])
                            [0..<8]);
          xmm1 = concat (map (\<lambda>k. let l = 8 * (k div 4) + k mod 4
                                   in [mm_unpacklo_epi32 (xmm0 ! l) (xmm0 ! (l + 4)),
                                       mm_unpackhi_epi32 (xmm0 ! l) (xmm0 ! (l + 4))])
                            [0..<8])
      in concat (map (\<lambda>k. [mm_unpacklo_epi64 (xmm1 ! k) (xmm1 ! (k + 8)),
                            mm_unpackhi_epi64 (xmm1 ! k) (xmm1 ! (k + 8))])
                     [0..<8]))"

definition shuffle16_sse2 :: "u8 list \<Rightarrow> u8 list \<Rightarrow> nat \<Rightarrow> nat \<Rightarrow> u8 list" where
  "shuffle16_sse2 dest src vectorizable_elements total_elements =
     fold (\<lambda>j dest.
        let xmm0 = map (\<lambda>k. mm_loadu_si128 src (j * 16 + k * 16)) [0..<16]
        in store_vectors dest (\<lambda>k. j + k * total_elements) (transpose16_stages xmm0))
       (vector_steps vectorizable_elements) dest"

text \<open>The values of \<open>offset_into_type\<close> in the tiled kernels: 0, then the remainder of
  the type size by 16 when it is not 0, then steps of 16.\<close>

definition tile_offsets :: "nat \<Rightarrow> nat list" where
  "tile_offsets bytesoftype =
     (let vecs_per_el_rem = bytesoftype mod 16
      in if vecs_per_el_rem > 0
         then 0 # map (\<lambda>q. vecs_per_el_rem + 16 * q) [0..<(bytesoftype - vecs_per_el_rem + 15) div 16]
         else map (\<lambda>q. 16 * q) [0..<(bytesoftype + 15) div 16])"

definition shuffle16_tiled_sse2 :: "u8 list \<Rightarrow> u8 list \<Rightarrow> nat \<Rightarrow> nat \<Rightarrow> nat \<Rightarrow> u8 list" where
  "shuffle16_tiled_sse2 dest src vectorizable_elements total_elements bytesoftype =
     fold (\<lambda>j dest.
        fold (\<lambda>offset_into_type dest.
           let xmm0 = map (\<lambda>k. mm_loadu_si128 src (offset_into_type + (j + k) * bytesoftype)) [0..<16]
           in store_vectors dest (\<lambda>k. j + total_elements * (offset_into_type + k))
                (transpose16_stages xmm0))
          (tile_offsets bytesoftype) dest)
       (vector_steps vectorizable_elements) dest"

definition unshuffle2_sse2 :: "u8 list \<Rightarrow> u8 list \<Rightarrow> nat \<Rightarrow> nat \<Rightarrow> u8 list" where
  "unshuffle2_sse2 dest src vectorizable_elements total_elements =
     fold (\<lambda>i dest.
        let xmm0 = map (\<lambda>j. mm_loadu_si128 src (i + j * total_elements)) [0..<2];
            xmm1 = [mm_unpacklo_epi8 (xmm0 ! 0) (xmm0 ! 1), mm_unpackhi_epi8 (xmm0 ! 0) (xmm0 ! 1)];
            dest = mm_storeu_si128 dest (i * 2 + 0 * 16) (xmm1 ! 0)
        in mm_storeu_si128 dest (i * 2 + 1 * 16) (xmm1 ! 1))
       (vector_steps vectorizable_elements) dest"

text \<open>A stage of the inverse kernels: \<open>xmm[j]\<close> gets the low and \<open>xmm[h + j]\<close> the high
  unpacking of the registers \<open>2j\<close> and \<open>2j+1\<close>, for \<open>j < h\<close>.\<close>

definition unpack_stage ::
  "(m128i \<Rightarrow> m128i \<Rightarrow> m128i) \<Rightarrow> (m128i \<Rightarrow> m128i \<Rightarrow> m128i) \<Rightarrow> nat \<Rightarrow> m128i list \<Rightarrow> m128i list" where
  "unpack_stage lo hi h xmm =
     map (\<lambda>j. lo (xmm ! (j * 2)) (xmm ! (j * 2 + 1))) [0..<h]
     @ map (\<lambda>j. hi (xmm ! (j * 2)) (xmm ! (j * 2 + 1))) [0..<h]"

definition store_in_order :: "u8 list \<Rightarrow> (nat \<Rightarrow> nat) \<Rightarrow> m128i list \<Rightarrow> nat list \<Rightarrow> u8 list" where
  "store_in_order dest addr xmm order =
     fold (\<lambda>e d. mm_storeu_si128 d (addr e) (xmm ! (order ! e))) [0..<length order] dest"

definition unshuffle4_sse2 :: "u8 list \<Rightarrow> u8 list \<Rightarrow> nat \<Rightarrow> nat \<Rightarrow> u8 list" where
  "unshuffle4_sse2 dest src vectorizable_elements total_elements =
     fold (\<lambda>i dest.
        let xmm0 = map (\<lambda>j. mm_loadu_si128 src (i + j * total_elements)) [0..<4];
            xmm1 = unpack_stage mm_unpacklo_epi8 mm_unpackhi_epi8 2 xmm0;
            xmm0 = unpack_stage mm_unpacklo_epi16 mm_unpackhi_epi16 2 xmm1
        in store_in_order dest (\<lambda>e. i * 4 + e * 16) xmm0 [0, 2, 1, 3])
       (vector_steps vectorizable_elements) dest"

definition unshuffle8_sse2 :: "u8 list \<Rightarrow> u8 list \<Rightarrow> nat \<Rightarrow> nat \<Rightarrow> u8 list" where
  "unshuffle8_sse2 dest src vectorizable_elements total_elements =
     fold (\<lambda>i dest.
        let xmm0 = map (\<lambda>j. mm_loadu_si128 src (i + j * total_elements)) [0..<8];
            xmm1 = unpack_stage mm_unpacklo_epi8 mm_unpackhi_epi8 4 xmm0;
            xmm0 = unpack_stage mm_unpacklo_epi16 mm_unpackhi_epi16 4 xmm1;
            xmm1 = unpack_stage mm_unpacklo_epi32 mm_unpackhi_epi32 4 xmm0
        in store_in_order dest (\<lambda>e. i * 8 + e * 16) xmm1 [0, 4, 2, 6, 1, 5, 3, 7])
       (vector_steps vectorizable_elements) dest"

definition untranspose16_stages :: "m128i list \<Rightarrow> m128i list" where
  "untranspose16_stages xmm1 =
     (let xmm2 = unpack_stage mm_unpacklo_epi8 mm_unpackhi_epi8 8 xmm1;
          xmm1 = unpack_stage mm_unpacklo_epi16 mm_unpackhi_epi16 8 xmm2;
          xmm2 = unpack_stage mm_unpacklo_epi32 mm_unpackhi_epi32 8 xmm1
      in unpack_stage mm_unpacklo_epi64 mm_unpackhi_epi64 8 xmm2)"

definition store_order16 :: "nat list" where
  "store_order16 = [0, 8, 4, 12, 2, 10, 6, 14, 1, 9, 5, 13, 3, 11, 7, 15]"

text \<open>
  \<open>unshuffle12_sse2\<close> loads the registers \<open>xmm1[0..11]\<close> only; \<open>xmm1[12..15]\<close> keep
  what they hold: at the first step what the stack holds when the function is entered
  (the argument \<open>xmm1_on_entry\<close>), afterwards the results of the step before. The state
  of the loop is the destination and the array \<open>xmm1\<close>. The last of the 16 stores is
  the masked one.
\<close>

definition unshuffle12_mask :: m128i where
  "unshuffle12_mask =
     mm_setr_epi8 [0x0, 0x0, 0x0, 0x0, 0xff, 0xff, 0xff, 0xff, 0xff, 0xff, 0xff, 0xff, 0xff, 0xff,
                   0xff, 0xff]"

definition unshuffle12_step :: "u8 list \<Rightarrow> nat \<Rightarrow> nat \<Rightarrow> u8 list \<times> m128i list \<Rightarrow> u8 list \<times> m128i list" where
  "unshuffle12_step src total_elements i st =
     (case st of (dest, xmm1) \<Rightarrow>
        let xmm1 = map (\<lambda>j. mm_loadu_si128 src (i + j * total_elements)) [0..<12] @ drop 12 xmm1;
            xmm1 = untranspose16_stages xmm1;
            dest = store_in_order dest (\<lambda>e. i * 12 + e * 12) xmm1 (take 15 store_order16);
            dest = mm_maskmoveu_si128 dest (xmm1 ! 15) unshuffle12_mask (i * 12 + 15 * 12)
        in (dest, xmm1))"

definition unshuffle12_sse2 :: "m128i list \<Rightarrow> u8 list \<Rightarrow> u8 list \<Rightarrow> nat \<Rightarrow> nat \<Rightarrow> u8 list" where
  "unshuffle12_sse2 xmm1_on_entry dest src vectorizable_elements total_elements =
     fst (fold (unshuffle12_step src total_elements) (vector_steps vectorizable_elements)
            (dest, xmm1_on_entry))"

definition unshuffle16_sse2 :: "u8 list \<Rightarrow> u8 list \<Rightarrow> nat \<Rightarrow> nat \<Rightarrow> u8 list" where
  "unshuffle16_sse2 dest src vectorizable_elements total_elements =
     fold (\<lambda>i dest.
        let xmm1 = map (\<lambda>j. mm_loadu_si128 src (i + j * total_elements)) [0..<16]
        in store_in_order dest (\<lambda>e. i * 16 + e * 16) (untranspose16_stages xmm1) store_order16)
       (vector_steps vectorizable_elements) dest"

definition unshuffle16_tiled_sse2 :: "u8 list \<Rightarrow> u8 list \<Rightarrow> nat \<Rightarrow> nat \<Rightarrow> nat \<Rightarrow> u8 list" where
  "unshuffle16_tiled_sse2 dest orig vectorizable_elements total_elements bytesoftype =
     fold (\<lambda>offset_into_type dest.
        fold (\<lambda>i dest.
           let xmm1 = map (\<lambda>j. mm_loadu_si128 orig (i + total_elements * (offset_into_type + j)))
                          [0..<16]
           in store_in_order dest (\<lambda>e. offset_into_type + (i + e) * bytesoftype)
                (untranspose16_stages xmm1) store_order16)
          (vector_steps vectorizable_elements) dest)
       (tile_offsets bytesoftype) dest"

text \<open>
  What the dispatchers call and the sources do not hold: \<open>shuffle_generic\<close> and
  \<open>unshuffle_generic\<close> (declared in shuffle-generic.h), \<open>shuffle_avx2\<close> and
  \<open>unshuffle_avx2\<close> (declared in shuffle-avx2.h). They are parameters, with the
  processor features and the stack contents \<open>unshuffle12_sse2\<close> reads.
\<close>

record shuffle_host =
  features :: cpu_features
  shuffle_generic :: "nat \<Rightarrow> nat \<Rightarrow> u8 list \<Rightarrow> u8 list \<Rightarrow> u8 list"
  unshuffle_generic :: "nat \<Rightarrow> nat \<Rightarrow> u8 list \<Rightarrow> u8 list \<Rightarrow> u8 list"
  shuffle_avx2 :: "nat \<Rightarrow> nat \<Rightarrow> u8 list \<Rightarrow> u8 list \<Rightarrow> u8 list"
  unshuffle_avx2 :: "nat \<Rightarrow> nat \<Rightarrow> u8 list \<Rightarrow> u8 list \<Rightarrow> u8 list"
  xmm1_on_entry :: "m128i list"

definition shuffle_sse2 :: "shuffle_host \<Rightarrow> nat \<Rightarrow> nat \<Rightarrow> u8 list \<Rightarrow> u8 list \<Rightarrow> u8 list" where
  "shuffle_sse2 hst bytesoftype blocksize src dest =
     (let vectorized_chunk_size = bytesoftype * 16;
          vectorizable_bytes = blocksize - (blocksize mod vectorized_chunk_size);
          vectorizable_elements = vectorizable_bytes div bytesoftype;
          total_elements = blocksize div bytesoftype;
          finish = (\<lambda>dest. if vectorizable_bytes < blocksize
                            then shuffle_generic_inline bytesoftype vectorizable_bytes blocksize src dest
                            else dest)
      in if blocksize < vectorized_chunk_size then shuffle_generic hst bytesoftype blocksize src dest
         else if bytesoftype = 2
         then finish (shuffle2_sse2 dest src vectorizable_elements total_elements)
         else if bytesoftype = 4
         then finish (shuffle4_sse2 dest src vectorizable_elements total_elements)
         else if bytesoftype = 8
         then finish (shuffle8_sse2 dest src vectorizable_elements total_elements)
         else if bytesoftype = 16
         then finish (shuffle16_sse2 dest src vectorizable_elements total_elements)
         else if bytesoftype > 16
         then finish (shuffle16_tiled_sse2 dest src vectorizable_elements total_elements bytesoftype)
         else shuffle_generic hst bytesoftype blocksize src dest)"

definition unshuffle_sse2 :: "shuffle_host \<Rightarrow> nat \<Rightarrow> nat \<Rightarrow> u8 list \<Rightarrow> u8 list \<Rightarrow> u8 list" where
  "unshuffle_sse2 hst bytesoftype blocksize src dest =
     (let vectorized_chunk_size = bytesoftype * 16;
          vectorizable_bytes = blocksize - (blocksize mod vectorized_chunk_size);
          vectorizable_elements = vectorizable_bytes div bytesoftype;
          total_elements = blocksize div bytesoftype;
          finish = (\<lambda>dest. if vectorizable_bytes < blocksize
                            then unshuffle_generic_inline bytesoftype vectorizable_bytes blocksize src dest
                            else dest)
      in if blocksize < vectorized_chunk_size then unshuffle_generic hst bytesoftype blocksize src dest
         else if bytesoftype = 2
         then finish (unshuffle2_sse2 dest src vectorizable_elements total_elements)
         else if bytesoftype = 4
         then finish (unshuffle4_sse2 dest src vectorizable_elements total_elements)
         else if bytesoftype = 8
         then finish (unshuffle8_sse2 dest src vectorizable_elements total_elements)
         else if bytesoftype = 12
         then finish (unshuffle12_sse2 (xmm1_on_entry hst) dest src vectorizable_elements total_elements)
         else if bytesoftype = 16
         then finish (unshuffle16_sse2 dest src vectorizable_elements total_elements)
         else if bytesoftype > 16
         then finish (unshuffle16_tiled_sse2 dest src vectorizable_elements total_elements bytesoftype)
         else unshuffle_generic hst bytesoftype blocksize src dest)"

section \<open>shuffle.cpp: the dispatchers\<close>

text \<open>
  \<open>shuffle\<close> and \<open>unshuffle\<close> with \<open>host_implementation\<close>, which is the AVX2 one
  when AVX2 is compiled in and present, else the SSE2 one when SSE2 is, else the generic
  one. For the width 1 both copy 256 bytes, whatever \<open>blocksize\<close> is.
\<close>

definition shuffle :: "shuffle_host \<Rightarrow> nat \<Rightarrow> nat \<Rightarrow> u8 list \<Rightarrow> u8 list \<Rightarrow> u8 list" where
  "shuffle hst bytesoftype blocksize src dest =
     (if bytesoftype = 1 then memcpy dest 0 src 0 256
      else if HAS_AVX2 (features hst) then shuffle_avx2 hst bytesoftype blocksize src dest
      else if HAS_SSE2 (features hst) then shuffle_sse2 hst bytesoftype blocksize src dest
      else shuffle_generic hst bytesoftype blocksize src dest)"

definition unshuffle :: "shuffle_host \<Rightarrow> nat \<Rightarrow> nat \<Rightarrow> u8 list \<Rightarrow> u8 list \<Rightarrow> u8 list" where
  "unshuffle hst bytesoftype blocksize src dest =
     (if bytesoftype = 1 then memcpy dest 0 src 0 256
      else if HAS_AVX2 (features hst) then unshuffle_avx2 hst bytesoftype blocksize src dest
      else if HAS_SSE2 (features hst) then unshuffle_sse2 hst bytesoftype blocksize src dest
      else unshuffle_generic hst bytesoftype blocksize src dest)"

text \<open>A host with SSE2 and without AVX2, to run the dispatchers on: its generic routines
  are the inline ones over the whole block, and the stack holds zeros.\<close>

definition sse2_host :: shuffle_host where
  "sse2_host =
     \<lparr>features = \<lparr>HAS_SSE2 = True, HAS_SSE3 = False, HAS_SSE41 = False, HAS_AVX2 = False\<rparr>,
      shuffle_generic = (\<lambda>bytesoftype blocksize src dest.
                           shuffle_generic_inline bytesoftype 0 blocksize src dest),
      unshuffle_generic = (\<lambda>bytesoftype blocksize src dest.
                             unshuffle_generic_inline bytesoftype 0 blocksize src dest),
      shuffle_avx2 = (\<lambda>bytesoftype blocksize src dest. dest),
      unshuffle_avx2 = (\<lambda>bytesoftype blocksize src dest. dest),
      xmm1_on_entry = replicate 16 (replicate 16 0)\<rparr>"

section \<open>Properties of the bound, the level setter and the width check\<close>

lemma ceil_div_nat:
  assumes "0 < d"
  shows "(n::nat) div d + (if n mod d \<noteq> 0 then 1 else 0) = (n + (d - 1)) div d"
proof -
  have "(n + (d - 1)) div d = (n div d * d + (n mod d + (d - 1))) div d"
    by (simp add: add.assoc [symmetric])
  also have "\<dots> = n div d + (n mod d + (d - 1)) div d"
    using assms by (simp only: div_mult_self3)
  also have "(n mod d + (d - 1)) div d = (if n mod d \<noteq> 0 then 1 else 0)"
  proof (cases "n mod d = 0")
    case True
    then show ?thesis using assms by simp
  next
    case False
    have "n mod d < d" using assms by simp
    then have "d \<le> n mod d + (d - 1)" "n mod d + (d - 1) < 2 * d"
      using False assms by linarith+
    then have "(n mod d + (d - 1)) div d = 1"
      by (intro div_nat_eqI) simp_all
    then show ?thesis using False by simp
  qed
  finally show ?thesis by simp
qed

lemma unat_lt_2p64: "unat (n::size_t) < 2 ^ 64"
  using unsigned_less [of n, where 'a = nat] by simp

lemma unat_super_block_count:
  fixes n :: size_t
  shows "unat (n div 65792 + (if n mod 65792 \<noteq> 0 then 1 else 0)) = (unat n + 65791) div 65792"
proof -
  have nz: "(n mod 65792 \<noteq> 0) = (unat n mod 65792 \<noteq> 0)"
    by (simp add: unat_eq_0 [symmetric] unat_mod)
  have small: "unat n div 65792 + (if unat n mod 65792 \<noteq> 0 then 1 else 0) < 2 ^ 64"
  proof -
    have "unat n div 65792 \<le> unat n div 2"
      by (rule div_le_mono2) simp_all
    moreover have "unat n div 2 + 1 < 2 ^ 64"
      using unat_lt_2p64 [of n] by simp
    ultimately show ?thesis by (simp split: if_splits)
  qed
  have "unat (n div 65792 + (if n mod 65792 \<noteq> 0 then 1 else 0))
        = (unat n div 65792 + (if unat n mod 65792 \<noteq> 0 then 1 else 0)) mod 2 ^ 64"
    using nz by (simp add: unat_word_ariths unat_div mod_simps)
  also have "\<dots> = unat n div 65792 + (if unat n mod 65792 \<noteq> 0 then 1 else 0)"
    using small by (rule mod_less)
  also have "\<dots> = (unat n + 65791) div 65792"
    using ceil_div_nat [of 65792 "unat n"] by simp
  finally show ?thesis .
qed

lemma unat_compress_bound:
  "unat (compress_bound n) = bound_formula (unat n) mod 2 ^ 64"
proof -
  define c :: size_t where "c = n div 65792 + (if n mod 65792 \<noteq> 0 then 1 else 0)"
  have cnat: "unat c = (unat n + 65791) div 65792"
    unfolding c_def by (rule unat_super_block_count)
  have c0: "(c = 0) = ((unat n + 65791) div 65792 = 0)"
    using cnat by (simp add: unat_eq_0 [symmetric])
  have m: "unat (if c = 0 then 1 else c) = max 1 ((unat n + 65791) div 65792)"
    using c0 cnat by (auto simp: max_def)
  have "compress_bound n = 12 + (if c = 0 then 1 else c) * 4 + n"
    by (simp add: compress_bound_def Let_def c_def)
  then have "unat (compress_bound n)
             = (12 + unat (if c = 0 then 1 else c) * 4 + unat n) mod 2 ^ 64"
    by (simp only: unat_word_ariths) (simp add: mod_simps)
  then show ?thesis
    unfolding m bound_formula_def by simp
qed

text \<open>
  Claim C9. \<open>stenos_bound\<close> is \<open>stenos::compress_bound\<close>, and what it returns is
  \<open>12 + max(1, ceil(n / 65792)) * 4 + n\<close> computed in \<open>size_t\<close>: the value of the
  formula modulo \<open>2 ^ 64\<close>, which is the formula itself whenever the formula fits
  into a \<open>size_t\<close>.
\<close>

theorem stenos_bound_formula:
  "stenos_bound n = compress_bound n
   \<and> unat (stenos_bound n) = bound_formula (unat n) mod 2 ^ 64
   \<and> (bound_formula (unat n) < 2 ^ 64 \<longrightarrow> unat (stenos_bound n) = bound_formula (unat n))"
  by (simp add: stenos_bound_def unat_compress_bound)

theorem stenos_bound_formula_witness:
  "bound_formula (unat (1048576 :: size_t)) < 2 ^ 64
   \<and> unat (stenos_bound 1048576) = 12 + 16 * 4 + 1048576"
proof -
  have b: "bound_formula (unat (1048576 :: size_t)) = 1048652"
    by (simp add: bound_formula_def)
  then have h: "bound_formula (unat (1048576 :: size_t)) < 2 ^ 64"
    by simp
  from stenos_bound_formula [of 1048576] h
  have "unat (stenos_bound 1048576) = bound_formula (unat (1048576 :: size_t))"
    by blast
  with b h show ?thesis by simp
qed

text \<open>
  Claim C8, as stated, fails: \<open>stenos_set_level\<close> has no error return. At level 10
  and at level -1 it returns the code 0 and stores 9 and 0.
\<close>

theorem set_level_out_of_range_counterexample:
  "fst (stenos_set_level stenos_make_context 10) = None
   \<and> level (snd (stenos_set_level stenos_make_context 10)) = 9
   \<and> fst (stenos_set_level stenos_make_context (-1)) = None
   \<and> level (snd (stenos_set_level stenos_make_context (-1))) = 0"
  by (simp add: stenos_set_level_def stenos_make_context_def)

text \<open>
  Claim C8, amended. For every level \<open>stenos_set_level\<close> returns the code 0; a level
  above 9 is stored as 9, a level below 0 as 0, a level in 0..9 as it is, and no other
  field of the context changes.
\<close>

theorem set_level_clamps:
  "fst (stenos_set_level ctx lvl) = None
   \<and> level (snd (stenos_set_level ctx lvl)) = max 0 (min 9 lvl)
   \<and> (0 \<le> lvl \<and> lvl \<le> 9 \<longrightarrow> level (snd (stenos_set_level ctx lvl)) = lvl)
   \<and> snd (stenos_set_level ctx lvl) = ctx\<lparr>level := max 0 (min 9 lvl)\<rparr>"
  by (auto simp: stenos_set_level_def Let_def max_def min_def)

theorem set_level_clamps_witness:
  "(0::int) \<le> 5 \<and> (5::int) \<le> 9
   \<and> fst (stenos_set_level stenos_make_context 5) = None
   \<and> level (snd (stenos_set_level stenos_make_context 5)) = 5"
  using set_level_clamps [of stenos_make_context 5] by simp

text \<open>
  Claim C7 at the width 65535: \<open>prepare\<close> returns \<open>InvalidBytesoftype\<close>, whatever
  the context and the input size. \<open>STENOS_MAX_BYTESOFTYPE\<close> is
  \<open>((1 << 24) - 1) / 256 = 65535\<close> and the check is \<open>bytesoftype >= STENOS_MAX_BYTESOFTYPE\<close>, so
  the error is returned exactly for the width 0 and the widths from 65535 on.
\<close>

theorem prepare_rejects_65535:
  "fst (prepare ctx 65535 n) = Some InvalidBytesoftype
   \<and> (fst (prepare ctx bpp n) = Some InvalidBytesoftype) = (bpp = 0 \<or> 65535 \<le> bpp)"
  by (auto simp: prepare_def STENOS_MAX_BYTESOFTYPE_def STENOS_MAX_BLOCK_BYTES_def Let_def
           split: prod.splits if_splits)

section \<open>Byte delta: what the coder stores\<close>

lemma writes_Nil [simp]: "writes g [] d = d"
  by (simp add: writes_def)

lemma writes_Cons [simp]: "writes g (i # idxs) d = writes g idxs (d[i := g i])"
  by (simp add: writes_def)

lemma writes_append: "writes g (xs @ ys) d = writes g ys (writes g xs d)"
  by (simp add: writes_def)

lemma length_writes [simp]: "length (writes g idxs d) = length d"
  by (induction idxs arbitrary: d) simp_all

lemma writes_nth:
  "writes g idxs d ! j = (if j \<in> set idxs \<and> j < length d then g j else d ! j)"
proof (induction idxs arbitrary: d)
  case Nil
  then show ?case by simp
next
  case (Cons a idxs)
  have "d[a := g a] ! j = (if j = a \<and> j < length d then g j else d ! j)"
    by (cases "a < length d") (auto simp: nth_list_update list_update_beyond)
  then show ?case using Cons by auto
qed

lemma writes_cong_set: "set xs = set ys \<Longrightarrow> writes g xs d = writes g ys d"
  by (rule nth_equalityI) (simp_all add: writes_nth)

lemma fold_upd_writes:
  "fold (\<lambda>i d. d[h i := g (h i)]) xs d = writes g (map h xs) d"
  by (simp add: writes_def fold_map comp_def)

lemma fold_upd4_writes:
  "fold (\<lambda>i d. d[a i := g (a i), b i := g (b i), c i := g (c i), e i := g (e i)]) xs d
   = writes g (concat (map (\<lambda>i. [a i, b i, c i, e i]) xs)) d"
  by (induction xs arbitrary: d) simp_all

lemma fold_funs4_writes:
  assumes "\<And>i d. i \<in> set xs \<Longrightarrow> f i d = writes g (A i) d"
  shows "fold f xs d = writes g (concat (map A xs)) d"
  using assms by (induction xs arbitrary: d) (simp_all add: writes_append)


lemma set_idx1: "set (map (\<lambda>i. a + i) [0..<m]) = {a..<a + m}"
  by (induction m) auto

lemma set_idx4:
  "set (concat (map (\<lambda>i. [a + i, b + i, c + i, e + i]) [0..<m]))
   = {a..<a + m} \<union> {b..<b + m} \<union> {c..<c + m} \<union> {e..<e + m}"
  by (induction m) auto

lemma fold_delta1_writes:
  "fold (\<lambda>i d. d[a + i := src ! (a + i) - src ! (a + i - 1)]) xs d
   = writes (dlt src) (map (\<lambda>i. a + i) xs) d"
  using fold_upd_writes [of "\<lambda>i. a + i" "dlt src" xs d] by (simp add: dlt_def)

lemma fold_delta4_writes:
  "fold (\<lambda>i d. d[a + i := src ! (a + i) - src ! (a + i - 1),
                    b + i := src ! (b + i) - src ! (b + i - 1),
                    c + i := src ! (c + i) - src ! (c + i - 1),
                    e + i := src ! (e + i) - src ! (e + i - 1)]) xs d
   = writes (dlt src) (concat (map (\<lambda>i. [a + i, b + i, c + i, e + i]) xs)) d"
  using fold_upd4_writes [of "\<lambda>i. a + i" "dlt src" "\<lambda>i. b + i" "\<lambda>i. c + i" "\<lambda>i. e + i" xs d]
  by (simp add: dlt_def)

lemma fold_delta_tail_writes:
  "fold (\<lambda>i d. d[i := src ! i - src ! (i - 1)]) xs d = writes (dlt src) xs d"
  by (simp add: writes_def dlt_def)

lemma plus_Suc0_fun: "((+) (Suc 0)) = Suc"
  by (simp add: fun_eq_iff)

lemma delta_generic_small:
  assumes "0 < n" "n \<le> 2048"
  shows "delta_generic src dst n = writes (dlt src) [1..<n] (dst[0 := src ! 0])"
  using assms unfolding delta_generic_def Let_def fold_delta1_writes
  by (simp add: plus_Suc0_fun map_Suc_upt)

lemma delta_generic_large:
  assumes "2048 < n"
  shows "delta_generic src dst n =
     writes (dlt src) [(n div 4 - 1 + 1) * 4..<n]
       (writes (dlt src)
          (concat (map (\<lambda>i. [0 + 1 + i, n div 4 + 1 + i, n div 4 * 2 + 1 + i, n div 4 * 3 + 1 + i])
                       [0..<n div 4 - 1]))
          (dst[0 := src ! 0, n div 4 := src ! (n div 4), n div 4 * 2 := src ! (n div 4 * 2),
               n div 4 * 3 := src ! (n div 4 * 3)]))"
  using assms unfolding delta_generic_def Let_def fold_delta4_writes fold_delta_tail_writes
  by (simp add: plus_Suc0_fun)


lemma length_delta_generic [simp]: "length (delta_generic src dst n) = length dst"
proof -
  consider "n = 0" | "0 < n" "n \<le> 2048" | "2048 < n" by linarith
  then show ?thesis
  proof cases
    case 1
    then show ?thesis by (simp add: delta_generic_def)
  next
    case 2
    then show ?thesis by (simp add: delta_generic_small)
  next
    case 3
    then show ?thesis by (simp add: delta_generic_large)
  qed
qed

lemma delta_generic_nth:
  assumes "j < n" "n \<le> length dst"
  shows "delta_generic src dst n ! j = (if j \<in> stream_starts n then src ! j else dlt src j)"
proof (cases "n \<le> 2048")
  case True
  with assms have n: "0 < n" "n \<le> 2048" by auto
  have "delta_generic src dst n ! j
        = (if 1 \<le> j \<and> j < n then dlt src j else dst[0 := src ! 0] ! j)"
    using assms by (simp add: delta_generic_small [OF n] writes_nth)
  moreover have "0 < length dst" using assms by linarith
  ultimately show ?thesis
    using assms n by (auto simp: stream_starts_def)
next
  case False
  define q where "q = n div 4"
  have q: "512 \<le> q" "q * 4 \<le> n" "n < q * 4 + 4"
    using False by (auto simp: q_def)
  have large: "2048 < n" using False by simp
  define d0 where "d0 = dst[0 := src ! 0, q := src ! q, q * 2 := src ! (q * 2), q * 3 := src ! (q * 3)]"
  have ld: "length d0 = length dst" by (simp add: d0_def)
  have jl: "j < length dst" using assms by linarith
  have d0: "d0 ! j = (if j = 0 \<or> j = q \<or> j = q * 2 \<or> j = q * 3 then src ! j else dst ! j)"
    using jl q by (auto simp: d0_def nth_list_update)
  have "delta_generic src dst n ! j
        = (if (j \<in> {0 + 1..<0 + 1 + (q - 1)} \<union> {q + 1..<q + 1 + (q - 1)}
                    \<union> {q * 2 + 1..<q * 2 + 1 + (q - 1)} \<union> {q * 3 + 1..<q * 3 + 1 + (q - 1)}
                \<or> j \<in> {(q - 1 + 1) * 4..<n}) \<and> j < length dst
           then dlt src j else d0 ! j)"
    unfolding delta_generic_large [OF large] q_def [symmetric] d0_def [symmetric]
    using ld by (simp only: writes_nth length_writes set_idx4 set_upt) auto
  then show ?thesis
    using assms q d0 large by (auto simp: stream_starts_def q_def [symmetric])
qed

lemma delta_generic_beyond:
  assumes "n \<le> j"
  shows "delta_generic src dst n ! j = dst ! j"
proof -
  consider "n = 0" | "0 < n" "n \<le> 2048" | "2048 < n" by linarith
  then show ?thesis
  proof cases
    case 1
    then show ?thesis by (simp add: delta_generic_def)
  next
    case 2
    have "delta_generic src dst n ! j
        = (if (1 \<le> j \<and> j < n) \<and> j < length dst then dlt src j else dst[0 := src ! 0] ! j)"
      by (simp add: delta_generic_small [OF 2] writes_nth)
    then show ?thesis using assms 2 by auto
  next
    case 3
    define q where "q = n div 4"
    have q: "512 \<le> q" "q * 4 \<le> n" "n < q * 4 + 4"
      using 3 by (auto simp: q_def)
    define d0 where "d0 = dst[0 := src ! 0, q := src ! q, q * 2 := src ! (q * 2), q * 3 := src ! (q * 3)]"
    have ld: "length d0 = length dst" by (simp add: d0_def)
    have d0: "d0 ! j = dst ! j"
      using assms q by (auto simp: d0_def nth_list_update)
    have "delta_generic src dst n ! j
        = (if (j \<in> {0 + 1..<0 + 1 + (q - 1)} \<union> {q + 1..<q + 1 + (q - 1)}
                    \<union> {q * 2 + 1..<q * 2 + 1 + (q - 1)} \<union> {q * 3 + 1..<q * 3 + 1 + (q - 1)}
                \<or> j \<in> {(q - 1 + 1) * 4..<n}) \<and> j < length dst
           then dlt src j else d0 ! j)"
      unfolding delta_generic_large [OF 3] q_def [symmetric] d0_def [symmetric]
      using ld by (simp only: writes_nth length_writes set_idx4 set_upt) auto
    then show ?thesis
      using assms q d0 by auto
  qed
qed


lemma stream_starts_large:
  assumes "2048 < n" "k < 4" "j < n div 4"
  shows "(k * (n div 4) + j \<in> stream_starts n) = (j = 0)"
    and "k * (n div 4) + j < n"
proof -
  have k: "k = 0 \<or> k = 1 \<or> k = 2 \<or> k = 3" using assms(2) by linarith
  have q: "512 \<le> n div 4" "n div 4 * 4 \<le> n" using assms(1) by auto
  show "(k * (n div 4) + j \<in> stream_starts n) = (j = 0)"
    using k q assms by (auto simp: stream_starts_def)
  show "k * (n div 4) + j < n"
    using k q assms by auto
qed

text \<open>
  Claim C5, as stated, fails on the tail. For 2049 bytes the quarters are 512 bytes long
  and one byte is left over, at offset 2048. With every source byte equal to 1 the coder
  stores 0 there (the difference with the byte at offset 2047), not the source byte 1.
\<close>

theorem delta_generic_tail_counterexample:
  "delta_generic (replicate 2049 1) (replicate 2049 0) 2049 ! 2048 = 0
   \<and> replicate 2049 (1::u8) ! 2048 = 1
   \<and> 2049 - 4 * (2049 div 4) = (1::nat) \<and> 4 * (2049 div 4) = (2048::nat)"
proof -
  have "delta_generic (replicate 2049 1) (replicate 2049 0) 2049 ! 2048
        = (if 2048 \<in> stream_starts 2049 then replicate 2049 1 ! 2048 else dlt (replicate 2049 1) 2048)"
    by (rule delta_generic_nth) simp_all
  moreover have "2048 \<notin> stream_starts 2049"
    by (simp add: stream_starts_def)
  ultimately show ?thesis
    by (simp add: dlt_def)
qed

text \<open>
  Claim C5, amended. \<open>delta_generic\<close> writes the first \<open>n\<close> bytes of the destination
  and nothing else. Up to 2048 bytes the input is one stream: the first byte verbatim,
  then the wrapping differences of neighbours. Above 2048 bytes each of the four quarters
  of \<open>n div 4\<close> bytes is such a stream of its own, and each of the remaining
  \<open>n - 4 * (n div 4)\<close> bytes is stored as its wrapping difference with the byte before
  it: the tail continues the delta coding of the fourth quarter and is not copied.
\<close>

theorem delta_generic_streams:
  assumes "n \<le> length src" and "n \<le> length dst"
  shows "length (delta_generic src dst n) = length dst
     \<and> (\<forall>j. n \<le> j \<longrightarrow> delta_generic src dst n ! j = dst ! j)
     \<and> (n \<le> 2048 \<longrightarrow>
          (0 < n \<longrightarrow> delta_generic src dst n ! 0 = src ! 0)
          \<and> (\<forall>j. 0 < j \<and> j < n \<longrightarrow> delta_generic src dst n ! j = src ! j - src ! (j - 1)))
     \<and> (2048 < n \<longrightarrow>
          (\<forall>k<4. delta_generic src dst n ! (k * (n div 4)) = src ! (k * (n div 4))
                  \<and> (\<forall>j. 0 < j \<and> j < n div 4 \<longrightarrow>
                         delta_generic src dst n ! (k * (n div 4) + j)
                         = src ! (k * (n div 4) + j) - src ! (k * (n div 4) + j - 1)))
          \<and> (\<forall>j. 4 * (n div 4) \<le> j \<and> j < n \<longrightarrow>
                   delta_generic src dst n ! j = src ! j - src ! (j - 1)))"
proof (intro conjI allI impI)
  show "length (delta_generic src dst n) = length dst" by simp
next
  fix j assume "n \<le> j"
  then show "delta_generic src dst n ! j = dst ! j" by (rule delta_generic_beyond)
next
  assume "n \<le> 2048" "0 < n"
  then show "delta_generic src dst n ! 0 = src ! 0"
    using delta_generic_nth [of 0 n dst src] assms by (simp add: stream_starts_def)
next
  fix j assume "n \<le> 2048" "0 < j \<and> j < n"
  then show "delta_generic src dst n ! j = src ! j - src ! (j - 1)"
    using delta_generic_nth [of j n dst src] assms by (simp add: stream_starts_def dlt_def)
next
  fix k :: nat assume h: "2048 < n" "k < 4"
  have "0 < n div 4" using h by simp
  then show "delta_generic src dst n ! (k * (n div 4)) = src ! (k * (n div 4))"
    using delta_generic_nth [of "k * (n div 4)" n dst src] assms
      stream_starts_large [OF h, of 0] by simp
next
  fix k j :: nat assume h: "2048 < n" "k < 4" and j: "0 < j \<and> j < n div 4"
  then show "delta_generic src dst n ! (k * (n div 4) + j)
             = src ! (k * (n div 4) + j) - src ! (k * (n div 4) + j - 1)"
    using delta_generic_nth [of "k * (n div 4) + j" n dst src] assms
      stream_starts_large [OF h, of j] by (simp add: dlt_def)
next
  fix j assume h: "2048 < n" and j: "4 * (n div 4) \<le> j \<and> j < n"
  have "512 \<le> n div 4" using h by simp
  then have "j \<notin> stream_starts n"
    using h j by (auto simp: stream_starts_def)
  then show "delta_generic src dst n ! j = src ! j - src ! (j - 1)"
    using delta_generic_nth [of j n dst src] assms j by (simp add: dlt_def)
qed

theorem delta_generic_streams_witness:
  "(3::nat) \<le> length [10, 30, 20 :: u8] \<and> (3::nat) \<le> length [0, 0, 0 :: u8]
   \<and> (3::nat) \<le> 2048 \<and> delta_generic [10, 30, 20] [0, 0, 0] 3 ! 0 = 10
   \<and> delta_generic [10, 30, 20] [0, 0, 0] 3 ! 2 = 246
   \<and> (2049::nat) \<le> length (replicate 2049 (1::u8)) \<and> (2048::nat) < 2049
   \<and> delta_generic (replicate 2049 1) (replicate 2049 7) 2049 ! (3 * (2049 div 4)) = 1
   \<and> delta_generic (replicate 2049 1) (replicate 2049 7) 2049 ! (3 * (2049 div 4) + 5) = 0
   \<and> delta_generic (replicate 2049 1) (replicate 2049 7) 2049 ! 2048 = 0"
proof -
  have a: "(3::nat) \<le> length [10, 30, 20 :: u8]" "(3::nat) \<le> length [0, 0, 0 :: u8]"
    by simp_all
  have b: "(2049::nat) \<le> length (replicate 2049 (1::u8))"
    "(2049::nat) \<le> length (replicate 2049 (7::u8))"
    by simp_all
  have sm: "(3::nat) \<le> 2048" and lg: "(2048::nat) < 2049" and k3: "(3::nat) < 4"
    by simp_all
  note s = delta_generic_streams [OF a, THEN conjunct2, THEN conjunct2, THEN conjunct1, THEN mp, OF sm]
  note l = delta_generic_streams [OF b, THEN conjunct2, THEN conjunct2, THEN conjunct2, THEN mp, OF lg]
  note lk = l [THEN conjunct1, rule_format, OF k3]
  have s0: "delta_generic [10, 30, 20] [0, 0, 0] 3 ! 0 = 10"
    using s [THEN conjunct1] by simp
  have s2: "delta_generic [10, 30, 20] [0, 0, 0] 3 ! 2 = [10, 30, 20] ! 2 - [10, 30, 20] ! (2 - 1)"
    using s [THEN conjunct2, rule_format, of 2] by simp
  have l1: "delta_generic (replicate 2049 1) (replicate 2049 7) 2049 ! (3 * (2049 div 4))
            = replicate 2049 1 ! (3 * (2049 div 4))"
    using lk [THEN conjunct1] by simp
  have l2: "delta_generic (replicate 2049 1) (replicate 2049 7) 2049 ! (3 * (2049 div 4) + 5)
            = replicate 2049 1 ! (3 * (2049 div 4) + 5) - replicate 2049 1 ! (3 * (2049 div 4) + 5 - 1)"
    using lk [THEN conjunct2, rule_format, of 5] by simp
  have l3: "delta_generic (replicate 2049 1) (replicate 2049 7) 2049 ! 2048
            = replicate 2049 1 ! 2048 - replicate 2049 1 ! (2048 - 1)"
    using l [THEN conjunct2, rule_format, of 2048] by simp
  show ?thesis
    using s0 s2 l1 l2 l3 by simp
qed

section \<open>Byte delta: the inverse\<close>

lemma length_fold_inv_step [simp]: "length (fold (inv_step y) qs d) = length d"
  by (induction qs arbitrary: d) (simp_all add: inv_step_def)

lemma fold_inv_step_agree:
  assumes "\<forall>j\<in>S. j < length d \<longrightarrow> d ! j = x ! j"
    and "chained S qs"
    and "\<forall>q\<in>set qs. y ! q = x ! q - x ! (q - 1)"
  shows "\<forall>j\<in>S \<union> set qs. j < length d \<longrightarrow> fold (inv_step y) qs d ! j = x ! j"
  using assms
proof (induction qs arbitrary: S d)
  case Nil
  then show ?case by simp
next
  case (Cons q qs)
  let ?d = "inv_step y q d"
  have q: "0 < q" "q - 1 \<in> S" "chained (insert q S) qs"
    using Cons.prems(2) by simp_all
  have yq: "y ! q = x ! q - x ! (q - 1)"
    using Cons.prems(3) by simp
  have len: "length ?d = length d" by (simp add: inv_step_def)
  have agree: "\<forall>j\<in>insert q S. j < length ?d \<longrightarrow> ?d ! j = x ! j"
  proof (intro ballI impI)
    fix j assume j: "j \<in> insert q S" "j < length ?d"
    show "?d ! j = x ! j"
    proof (cases "j = q")
      case True
      have "q - 1 < length d" using j True len by simp
      then have "d ! (q - 1) = x ! (q - 1)" using Cons.prems(1) q by simp
      then show ?thesis using True j len yq by (simp add: inv_step_def)
    next
      case False
      then show ?thesis using j len Cons.prems(1) by (simp add: inv_step_def)
    qed
  qed
  have "\<forall>j\<in>insert q S \<union> set qs. j < length ?d \<longrightarrow> fold (inv_step y) qs ?d ! j = x ! j"
    using Cons.IH [OF agree q(3)] Cons.prems(3) by simp
  then show ?case using len by simp
qed

lemma fold_inv_step_outside:
  "j \<notin> set qs \<Longrightarrow> fold (inv_step y) qs d ! j = d ! j"
  by (induction qs arbitrary: d) (simp_all add: inv_step_def)

lemma chained_run: "a \<in> S \<Longrightarrow> chained S (map (\<lambda>i. a + 1 + i) [0..<m])"
proof (induction m arbitrary: a S)
  case 0
  then show ?case by simp
next
  case (Suc m)
  have "map (\<lambda>i. a + 1 + i) [0..<Suc m] = (a + 1) # map (\<lambda>i. (a + 1) + 1 + i) [0..<m]"
    by (simp add: upt_conv_Cons map_Suc_upt [symmetric] del: upt_Suc)
  then show ?case using Suc.prems Suc.IH [of "a + 1" "insert (a + 1) S"] by simp
qed

lemma chained_run4:
  "a \<in> S \<Longrightarrow> b \<in> S \<Longrightarrow> c \<in> S \<Longrightarrow> e \<in> S \<Longrightarrow>
   chained S (concat (map (\<lambda>i. [a + 1 + i, b + 1 + i, c + 1 + i, e + 1 + i]) [0..<m]))"
proof (induction m arbitrary: a b c e S)
  case 0
  then show ?case by simp
next
  case (Suc m)
  let ?S = "insert (e + 1) (insert (c + 1) (insert (b + 1) (insert (a + 1) S)))"
  have "concat (map (\<lambda>i. [a + 1 + i, b + 1 + i, c + 1 + i, e + 1 + i]) [0..<Suc m])
        = [a + 1, b + 1, c + 1, e + 1]
          @ concat (map (\<lambda>i. [(a + 1) + 1 + i, (b + 1) + 1 + i, (c + 1) + 1 + i, (e + 1) + 1 + i]) [0..<m])"
    by (simp add: upt_conv_Cons map_Suc_upt [symmetric] comp_def del: upt_Suc)
  moreover have "chained ?S (concat (map (\<lambda>i. [(a + 1) + 1 + i, (b + 1) + 1 + i, (c + 1) + 1 + i, (e + 1) + 1 + i]) [0..<m]))"
    by (rule Suc.IH) simp_all
  ultimately show ?case using Suc.prems by simp
qed

lemma chained_mono: "chained S qs \<Longrightarrow> S \<subseteq> S' \<Longrightarrow> chained S' qs"
proof (induction qs arbitrary: S S')
  case Nil
  then show ?case by simp
next
  case (Cons q qs)
  then have "chained (insert q S) qs" "insert q S \<subseteq> insert q S'" by auto
  then have "chained (insert q S') qs" by (rule Cons.IH)
  then show ?case using Cons.prems by auto
qed

lemma chained_append:
  "chained S xs \<Longrightarrow> chained (S \<union> set xs) ys \<Longrightarrow> chained S (xs @ ys)"
proof (induction xs arbitrary: S)
  case Nil
  then show ?case by simp
next
  case (Cons q xs)
  have "chained (insert q S \<union> set xs) ys" using Cons.prems(2) by simp
  then show ?case using Cons by simp
qed


lemma chained_upt:
  assumes "0 < a" "a - 1 \<in> S"
  shows "chained S [a..<n]"
proof (cases "a \<le> n")
  case True
  have "map (\<lambda>i. (a - 1) + 1 + i) [0..<n - a] = map (\<lambda>i. i + a) [0..<n - a]"
    using assms(1) by simp
  also have "\<dots> = [a..<n]"
    using True by (simp only: map_add_upt) simp
  finally have "[a..<n] = map (\<lambda>i. (a - 1) + 1 + i) [0..<n - a]" by simp
  then show ?thesis using chained_run [OF assms(2), of "n - a"] by simp
next
  case False
  then show ?thesis by simp
qed

lemma fold4_concat:
  "fold (\<lambda>i d. f (e i) (f (c i) (f (b i) (f (a i) d)))) xs d
   = fold f (concat (map (\<lambda>i. [a i, b i, c i, e i]) xs)) d"
  by (induction xs arbitrary: d) simp_all

lemma delta_inv_generic_small:
  assumes "0 < n" "n \<le> 2048"
  shows "delta_inv_generic y d n = fold (inv_step y) (map (\<lambda>i. 0 + 1 + i) [0..<n - 1]) (d[0 := y ! 0])"
  using assms unfolding delta_inv_generic_def Let_def by (simp add: fold_map comp_def)

lemma delta_inv_generic_large:
  assumes "2048 < n"
  shows "delta_inv_generic y d n =
     fold (inv_step y)
       (concat (map (\<lambda>i. [0 + 1 + i, n div 4 + 1 + i, n div 4 * 2 + 1 + i, n div 4 * 3 + 1 + i])
                    [0..<n div 4 - 1]) @ [(n div 4 - 1 + 1) * 4..<n])
       (d[0 := y ! 0, n div 4 := y ! (n div 4), n div 4 * 2 := y ! (n div 4 * 2),
          n div 4 * 3 := y ! (n div 4 * 3)])"
  using assms unfolding delta_inv_generic_def Let_def fold4_concat
  by (simp add: fold_map comp_def)

lemma delta_inv_generic_length [simp]: "length (delta_inv_generic y d n) = length d"
proof -
  consider "n = 0" | "0 < n" "n \<le> 2048" | "2048 < n" by linarith
  then show ?thesis
  proof cases
    case 1
    then show ?thesis by (simp add: delta_inv_generic_def)
  next
    case 2
    then show ?thesis by (simp add: delta_inv_generic_small)
  next
    case 3
    then show ?thesis by (simp add: delta_inv_generic_large)
  qed
qed

lemma delta_inv_generic_correct:
  assumes y: "is_delta_of n y x" and len: "n \<le> length d" and j: "j < n"
  shows "delta_inv_generic y d n ! j = x ! j"
proof (cases "n \<le> 2048")
  case True
  with j have n: "0 < n" "n \<le> 2048" by auto
  let ?qs = "map (\<lambda>i. 0 + 1 + i) [0..<n - 1]"
  let ?d0 = "d[0 := y ! 0]"
  have st: "stream_starts n = {0}" using n by (simp add: stream_starts_def)
  have set_qs: "set ?qs = {1..<n}" using n by auto
  have a: "\<forall>j\<in>{0}. j < length ?d0 \<longrightarrow> ?d0 ! j = x ! j"
    using y n st by (simp add: is_delta_of_def)
  have c: "chained {0} ?qs" by (rule chained_run) simp
  have v: "\<forall>q\<in>set ?qs. y ! q = x ! q - x ! (q - 1)"
    using y st unfolding set_qs by (simp add: is_delta_of_def)
  have "\<forall>j\<in>{0} \<union> set ?qs. j < length ?d0 \<longrightarrow> fold (inv_step y) ?qs ?d0 ! j = x ! j"
    by (rule fold_inv_step_agree [OF a c v])
  moreover have "j \<in> {0} \<union> set ?qs" unfolding set_qs using j by auto
  moreover have "j < length ?d0" using j len by simp
  ultimately show ?thesis by (simp only: delta_inv_generic_small [OF n])
next
  case False
  then have large: "2048 < n" by simp
  define q where "q = n div 4"
  have q: "512 \<le> q" "q * 4 \<le> n" "n < q * 4 + 4"
    using False by (auto simp: q_def)
  let ?qs1 = "concat (map (\<lambda>i. [0 + 1 + i, q + 1 + i, q * 2 + 1 + i, q * 3 + 1 + i]) [0..<q - 1])"
  let ?qs2 = "[(q - 1 + 1) * 4..<n]"
  let ?d0 = "d[0 := y ! 0, q := y ! q, q * 2 := y ! (q * 2), q * 3 := y ! (q * 3)]"
  let ?S = "{0, q, q * 2, q * 3}"
  have st: "stream_starts n = ?S" using large by (simp add: stream_starts_def q_def)
  have set1: "set ?qs1 = {0 + 1..<0 + 1 + (q - 1)} \<union> {q + 1..<q + 1 + (q - 1)}
                \<union> {q * 2 + 1..<q * 2 + 1 + (q - 1)} \<union> {q * 3 + 1..<q * 3 + 1 + (q - 1)}"
    by (rule set_idx4)
  have ld: "length ?d0 = length d" by simp
  have a: "\<forall>j\<in>?S. j < length ?d0 \<longrightarrow> ?d0 ! j = x ! j"
  proof (intro ballI impI)
    fix j assume h: "j \<in> ?S" "j < length ?d0"
    have "j < n" using h q by auto
    then have "y ! j = x ! j" using y h st by (simp add: is_delta_of_def)
    moreover have "?d0 ! j = y ! j" using h q by (auto simp: nth_list_update)
    ultimately show "?d0 ! j = x ! j" by simp
  qed
  have c1: "chained ?S ?qs1" by (rule chained_run4) simp_all
  have "q * 4 - 1 \<in> set ?qs1" unfolding set1 using q by auto
  then have c2: "chained (?S \<union> set ?qs1) ?qs2"
    using q by (intro chained_upt) auto
  have c: "chained ?S (?qs1 @ ?qs2)" by (rule chained_append [OF c1 c2])
  have v: "\<forall>p\<in>set (?qs1 @ ?qs2). y ! p = x ! p - x ! (p - 1)"
  proof
    fix p assume "p \<in> set (?qs1 @ ?qs2)"
    then have "p \<in> set ?qs1 \<or> p \<in> set ?qs2" by simp
    then have "p < n \<and> p \<notin> ?S" unfolding set1 using q by auto
    then show "y ! p = x ! p - x ! (p - 1)" using y st by (simp add: is_delta_of_def)
  qed
  have "\<forall>j\<in>?S \<union> set (?qs1 @ ?qs2). j < length ?d0 \<longrightarrow>
          fold (inv_step y) (?qs1 @ ?qs2) ?d0 ! j = x ! j"
    by (rule fold_inv_step_agree [OF a c v])
  moreover have "j \<in> ?S \<union> set (?qs1 @ ?qs2)"
  proof -
    have "j \<in> ?S \<union> set ?qs1 \<union> set ?qs2" unfolding set1 using j q by auto
    then show ?thesis by simp
  qed
  moreover have "j < length ?d0" using j len by simp
  ultimately have "fold (inv_step y) (?qs1 @ ?qs2) ?d0 ! j = x ! j" by blast
  then show ?thesis
    unfolding delta_inv_generic_large [OF large] q_def [symmetric] .
qed

lemma delta_generic_is_delta:
  assumes "n \<le> length d"
  shows "is_delta_of n (delta_generic x d n) x"
  unfolding is_delta_of_def
proof (intro allI impI)
  fix j assume "j < n"
  then show "delta_generic x d n ! j = (if j \<in> stream_starts n then x ! j else x ! j - x ! (j - 1))"
    using delta_generic_nth [of j n d x] assms by (simp add: dlt_def)
qed

lemma delta_generic_roundtrip:
  assumes "n \<le> length x" "n \<le> length d" "n \<le> length d'"
  shows "take n (delta_inv_generic (delta_generic x d n) d' n) = take n x"
proof (rule nth_equalityI)
  show "length (take n (delta_inv_generic (delta_generic x d n) d' n)) = length (take n x)"
    using assms by simp
next
  fix j assume "j < length (take n (delta_inv_generic (delta_generic x d n) d' n))"
  then have j: "j < n" by simp
  have "delta_inv_generic (delta_generic x d n) d' n ! j = x ! j"
    by (rule delta_inv_generic_correct [OF delta_generic_is_delta [OF assms(2)] assms(3) j])
  then show "take n (delta_inv_generic (delta_generic x d n) d' n) ! j = take n x ! j"
    using j by simp
qed

lemma fold_inv_step_pre_below:
  "j < a \<Longrightarrow> fold (inv_step_pre pre y) [a..<n] d ! j = d ! j"
proof (induction "n - a" arbitrary: a d)
  case 0
  then show ?case by simp
next
  case (Suc m)
  then have "a < n" by simp
  then have "[a..<n] = a # [Suc a..<n]" by (simp add: upt_conv_Cons)
  moreover have "fold (inv_step_pre pre y) [Suc a..<n] (inv_step_pre pre y a d) ! j
                 = inv_step_pre pre y a d ! j"
    using Suc by (intro Suc.hyps(1)) auto
  moreover have "inv_step_pre pre y a d ! j = d ! j"
    using Suc.prems by (simp add: inv_step_pre_def)
  ultimately show ?case by simp
qed

lemma delta_inv_simd_short:
  assumes "0 < n" "n < w" "n \<le> 2048" "n \<le> length d"
  shows "delta_inv_simd w pre y d n ! 0 = pre + y ! 0"
proof -
  have nv: "n div w = 0" using assms by simp
  have "[0..<n] = 0 # [Suc 0..<n]" using assms by (simp add: upt_conv_Cons)
  then have "delta_inv_simd w pre y d n
             = fold (inv_step_pre pre y) [Suc 0..<n] (inv_step_pre pre y 0 d)"
    using assms nv by (simp add: delta_inv_simd_def Let_def)
  then have "delta_inv_simd w pre y d n ! 0 = inv_step_pre pre y 0 d ! 0"
    by (simp add: fold_inv_step_pre_below)
  moreover have "0 < length d" using assms by linarith
  ultimately show ?thesis by (simp add: inv_step_pre_def dst_before_def)
qed

text \<open>
  Claim C4 at a failing input: one byte, 5, on a processor with SSE2 and without AVX2,
  with the byte 1 in memory before the destination buffer. \<open>delta\<close> stores 5;
  \<open>delta_inv\<close> takes the SSE2 form, whose vector loop does not run for fewer than 16
  bytes and whose scalar loop computes \<open>dst[0] = dst[-1] + src[0] = 1 + 5\<close>. The generic
  form, which copies the first byte, returns the input. (\<open>delta_inv_simd_short\<close>: the
  same holds for every length from 1 to 15, and from 1 to 31 for the AVX2 form.)
\<close>

theorem delta_inv_sse2_one_byte:
  "delta_inv \<lparr>HAS_SSE2 = True, HAS_SSE3 = True, HAS_SSE41 = True, HAS_AVX2 = False\<rparr> 1
     (delta \<lparr>HAS_SSE2 = True, HAS_SSE3 = True, HAS_SSE41 = True, HAS_AVX2 = False\<rparr> [5] [0] 1)
     [0] 1 = [6]
   \<and> delta_inv_generic (delta_generic [5] [0] 1) [0] 1 = [5]"
  by (simp add: delta_inv_def delta_def delta_inv_sse2_def delta_sse2_def delta_inv_simd_def
        delta_simd_def delta_inv_generic_def delta_generic_def inv_step_pre_def dst_before_def
        Let_def)

section \<open>The frame codec: the empty input\<close>

lemma le_bytes_0: "le_bytes k 0 = replicate k 0"
  by (simp add: le_bytes_def map_replicate_const)

lemma length_le_bytes: "length (le_bytes k v) = k"
  by (simp add: le_bytes_def)

lemma read_le_replicate_0: "read_le (replicate k 0) = 0"
  by (induction k) (simp_all add: read_le_def)

lemma floor_multiple_bounds:
  fixes b M :: nat
  assumes "0 < b" "b \<le> M"
  shows "b \<le> (M div b) * b" and "(M div b) * b \<le> M"
proof -
  have "1 \<le> M div b" using assms by (simp add: Suc_leI div_greater_zero_iff)
  then have "1 * b \<le> (M div b) * b" by (rule mult_le_mono1)
  then show "b \<le> (M div b) * b" by simp
  show "(M div b) * b \<le> M" by (rule div_times_less_eq_dividend)
qed

lemma super_block_size_bounds:
  assumes "0 < bs" "bs < STENOS_MAX_BLOCK_BYTES"
  shows "bs \<le> super_block_size bs" and "super_block_size bs < STENOS_MAX_BLOCK_BYTES"
proof -
  show "bs \<le> super_block_size bs"
    using floor_multiple_bounds(1) [of bs STENOS_BLOCK_SIZE] assms
    by (simp add: super_block_size_def)
  have lt: "STENOS_BLOCK_SIZE < STENOS_MAX_BLOCK_BYTES"
    by (simp add: STENOS_BLOCK_SIZE_def STENOS_MAX_BLOCK_BYTES_def)
  have "STENOS_BLOCK_SIZE div bs * bs < STENOS_MAX_BLOCK_BYTES"
    by (rule le_less_trans [OF div_times_less_eq_dividend lt])
  then show "super_block_size bs < STENOS_MAX_BLOCK_BYTES"
    using assms by (simp add: super_block_size_def)
qed

lemma block_size_bounds:
  assumes "0 < bpp" "bpp < STENOS_MAX_BYTESOFTYPE"
  shows "0 < bpp * 256" and "bpp * 256 < STENOS_MAX_BLOCK_BYTES"
  using assms by (simp_all add: STENOS_MAX_BYTESOFTYPE_def STENOS_MAX_BLOCK_BYTES_def)

lemma required_superblock_count_pos:
  assumes "1 \<le> n" "n < 2 ^ 26"
  shows "nat (signed_take_bit 31 ((n::int) * 32) mod 2 ^ 64) = nat (n * 32)" "0 < nat (n * 32)"
proof -
  have a: "0 \<le> n * 32" "n * 32 < 2 ^ 31" using assms by simp_all
  then have "- (2 ^ 31) \<le> n * 32" by simp
  then have s: "signed_take_bit 31 (n * 32) = n * 32"
    using a(2) by (simp add: signed_take_bit_int_eq_self)
  have "n * 32 < 2 ^ 64" using a(2) by (rule less_trans) simp
  then have "(n * 32) mod 2 ^ 64 = n * 32" using a(1) by (simp only: mod_pos_pos_trivial)
  then show "nat (signed_take_bit 31 (n * 32) mod 2 ^ 64) = nat (n * 32)" by (simp only: s)
  show "0 < nat (n * 32)" using assms by simp
qed

text \<open>\<open>prepare\<close> on the empty input.\<close>

lemma prepare_empty_default:
  assumes "0 < bpp" "bpp < STENOS_MAX_BYTESOFTYPE"
    and "nanoseconds (t opts) = 0" "custom_blocksize_shift opts = STENOS_NO_BLOCK_SHIFT"
  shows "prepare opts bpp 0
           = (None, opts\<lparr>shift := 0, superblock_size := super_block_size (bpp * 256)\<rparr>)"
  using assms super_block_size_bounds [OF block_size_bounds [OF assms(1,2)]]
  by (simp add: prepare_def Let_def not_less not_le)

lemma prepare_empty_custom:
  assumes "0 < bpp" "bpp < STENOS_MAX_BYTESOFTYPE"
    and "nanoseconds (t opts) = 0" "custom_blocksize_shift opts \<noteq> STENOS_NO_BLOCK_SHIFT"
  shows "prepare opts bpp 0
           = (if bpp * 256 * 2 ^ custom_blocksize_shift opts < STENOS_MAX_BLOCK_BYTES
              then (None, opts\<lparr>shift := 255,
                                superblock_size := bpp * 256 * 2 ^ custom_blocksize_shift opts\<rparr>)
              else (Some InvalidParameter, opts\<lparr>shift := 255\<rparr>))"
  using assms by (simp add: prepare_def Let_def not_less not_le)

lemma prepare_empty_timed:
  assumes "0 < bpp" "bpp < STENOS_MAX_BYTESOFTYPE"
    and "nanoseconds (t opts) \<noteq> 0" "1 \<le> threads opts" "threads opts < 2 ^ 26"
  shows "fst (prepare opts bpp 0) = None"
    "shift (snd (prepare opts bpp 0)) = 255"
    "superblock_size (snd (prepare opts bpp 0)) = super_block_size (bpp * 256)"
    "custom_blocksize_shift (snd (prepare opts bpp 0)) = custom_blocksize_shift opts"
proof -
  note r = required_superblock_count_pos [OF assms(4,5)]
  note b = block_size_bounds [OF assms(1,2)]
  note sb = super_block_size_bounds [OF b]
  have eq: "\<not> bpp * 256 < STENOS_BLOCK_SIZE \<Longrightarrow> super_block_size (bpp * 256) = bpp * 256"
    by (auto simp add: super_block_size_def not_less)
  show "fst (prepare opts bpp 0) = None"
    "shift (snd (prepare opts bpp 0)) = 255"
    "superblock_size (snd (prepare opts bpp 0)) = super_block_size (bpp * 256)"
    "custom_blocksize_shift (snd (prepare opts bpp 0)) = custom_blocksize_shift opts"
    unfolding prepare_def Let_def r(1)
    using assms(1,2,3,4) b sb eq
    by (simp_all add: not_less not_le)
qed


lemma decompress_declared_zero:
  assumes "0 < bpp" "bpp < STENOS_MAX_BYTESOFTYPE" "8 \<le> length frame"
    and "frame ! 0 \<le> 4 \<or> frame ! 0 = 255" "read_uint64_7 frame 1 = 0"
  shows "stenos_decompress_generic c h opts frame bpp dst = Inr (0, dst)"
  using assms by (auto simp add: stenos_decompress_generic_def Let_def)

lemma header_zero_length: "write_uint64_7 0 = [0, 0, 0, 0, 0, 0, 0]"
proof -
  have "write_uint64_7 0 = replicate 7 0" by (simp add: write_uint64_7_def le_bytes_0)
  moreover have "replicate 7 (0::u8) = [0, 0, 0, 0, 0, 0, 0]" by (simp add: numeral_eq_Suc)
  ultimately show ?thesis by simp
qed

lemma compress_empty_default:
  assumes "0 < bpp" "bpp < STENOS_MAX_BYTESOFTYPE"
    and "nanoseconds (t opts) = 0" "custom_blocksize_shift opts = STENOS_NO_BLOCK_SHIFT"
    and "8 \<le> dst_size"
  shows "stenos_compress_generic c h opts [] bpp dst_size = Inr [0, 0, 0, 0, 0, 0, 0, 0]"
  using assms(4,5)
  by (simp add: stenos_compress_generic_def prepare_empty_default [OF assms(1-4)]
      header_zero_length Let_def)

lemma compress_empty_custom:
  assumes "0 < bpp" "bpp < STENOS_MAX_BYTESOFTYPE"
    and "nanoseconds (t opts) = 0" "custom_blocksize_shift opts \<noteq> STENOS_NO_BLOCK_SHIFT"
  shows "bpp * 256 * 2 ^ custom_blocksize_shift opts < STENOS_MAX_BLOCK_BYTES \<Longrightarrow> 12 \<le> dst_size
           \<Longrightarrow> stenos_compress_generic c h opts [] bpp dst_size
                 = Inr ([255, 0, 0, 0, 0, 0, 0, 0]
                        @ write_LE_32 (bpp * 256 * 2 ^ custom_blocksize_shift opts))"
    and "STENOS_MAX_BLOCK_BYTES \<le> bpp * 256 * 2 ^ custom_blocksize_shift opts
           \<Longrightarrow> stenos_compress_generic c h opts [] bpp dst_size = Inl InvalidParameter"
  using assms(4)
  by (simp_all add: stenos_compress_generic_def prepare_empty_custom [OF assms(1-4)]
      header_zero_length Let_def)

lemma compress_empty_timed:
  assumes "0 < bpp" "bpp < STENOS_MAX_BYTESOFTYPE"
    and "nanoseconds (t opts) \<noteq> 0" "1 \<le> threads opts" "threads opts < 2 ^ 26"
    and "(if custom_blocksize_shift opts = STENOS_NO_BLOCK_SHIFT then 8 else 12) \<le> dst_size"
  shows "stenos_compress_generic c h opts [] bpp dst_size
           = Inr ([255, 0, 0, 0, 0, 0, 0, 0]
                  @ (if custom_blocksize_shift opts = STENOS_NO_BLOCK_SHIFT then []
                     else write_LE_32 (super_block_size (bpp * 256))))"
proof -
  obtain e opts1 where p: "prepare opts bpp 0 = (e, opts1)" by (cases "prepare opts bpp 0")
  note f = prepare_empty_timed [OF assms(1-5), unfolded p, simplified]
  show ?thesis
    using assms(6) f
    by (auto simp add: stenos_compress_generic_def p header_zero_length Let_def)
qed

text \<open>
  Claim C10 as stated, at the width 2 with the custom superblock shift 15 (a value
  \<open>stenos_set_block_size\<close> accepts): the superblock size \<open>2 * 256 << 15 = 16777216\<close> is
  not below \<open>STENOS_MAX_BLOCK_BYTES\<close>, so \<open>prepare\<close> refuses it and compressing the
  empty input returns \<open>STENOS_ERROR_INVALID_PARAMETER\<close> instead of a header.
\<close>

theorem zero_byte_custom_shift_counterexample:
  "fst (stenos_set_block_size stenos_make_context 15) = None
   \<and> stenos_compress_generic plain_coders plain_host
         (snd (stenos_set_block_size stenos_make_context 15)) [] 2 16 = Inl InvalidParameter"
proof -
  let ?o = "snd (stenos_set_block_size stenos_make_context 15)"
  have o: "nanoseconds (t ?o) = 0" "custom_blocksize_shift ?o = 15"
    by (simp_all add: stenos_set_block_size_def stenos_make_context_def make_time_constraint_def
        STENOS_NO_BLOCK_SHIFT_def)
  have n: "custom_blocksize_shift ?o \<noteq> STENOS_NO_BLOCK_SHIFT"
    by (simp add: o STENOS_NO_BLOCK_SHIFT_def)
  have b: "(0::nat) < 2" "(2::nat) < STENOS_MAX_BYTESOFTYPE"
    by (simp_all add: STENOS_MAX_BYTESOFTYPE_def STENOS_MAX_BLOCK_BYTES_def)
  have m: "STENOS_MAX_BLOCK_BYTES \<le> 2 * 256 * 2 ^ custom_blocksize_shift ?o"
    by (simp add: o STENOS_MAX_BLOCK_BYTES_def)
  have "fst (stenos_set_block_size stenos_make_context 15) = None"
    by (simp add: stenos_set_block_size_def)
  then show ?thesis using compress_empty_custom(2) [OF b o(1) n m] by simp
qed

text \<open>
  Claim C10, amended. For a width from 1 to 65534, compressing the empty input writes
  the frame header alone and no superblock record:
  \<^item> without time budget and without custom superblock size, into a destination of at
    least 8 bytes: the 8 bytes \<open>00 00 00 00 00 00 00 00\<close>;
  \<^item> without time budget and with the custom superblock shift \<open>k\<close>, when
    \<open>BPP * 256 * 2^k < 16777215\<close>, into a destination of at least 12 bytes: the byte
    \<open>FF\<close>, seven bytes \<open>00\<close> and \<open>BPP * 256 * 2^k\<close> on 4 bytes, little-endian; when
    \<open>BPP * 256 * 2^k \<ge> 16777215\<close> the call fails with \<open>STENOS_ERROR_INVALID_PARAMETER\<close>;
  \<^item> with a time budget and a thread count from 1 to \<open>2^26 - 1\<close>, into a destination
    of at least 8 bytes (12 when a custom superblock size is set): the byte \<open>FF\<close> and
    seven bytes \<open>00\<close>, followed when a custom superblock size is set by
    \<open>super_block_size (BPP * 256)\<close> on 4 bytes, little-endian.

  Decompressing, for such a width, a frame of at least 8 bytes whose shift byte is valid
  (at most 4, or 255) and whose declared length is 0 returns 0 and leaves the destination
  as it was, whatever follows these 8 bytes.
\<close>

theorem zero_byte_header:
  assumes "0 < bpp" "bpp < STENOS_MAX_BYTESOFTYPE"
  shows "(nanoseconds (t opts) = 0 \<and> custom_blocksize_shift opts = STENOS_NO_BLOCK_SHIFT
            \<and> 8 \<le> dst_size
          \<longrightarrow> stenos_compress_generic c h opts [] bpp dst_size = Inr [0, 0, 0, 0, 0, 0, 0, 0])
       \<and> (nanoseconds (t opts) = 0 \<and> custom_blocksize_shift opts \<noteq> STENOS_NO_BLOCK_SHIFT
            \<and> bpp * 256 * 2 ^ custom_blocksize_shift opts < STENOS_MAX_BLOCK_BYTES
            \<and> 12 \<le> dst_size
          \<longrightarrow> stenos_compress_generic c h opts [] bpp dst_size
                = Inr ([255, 0, 0, 0, 0, 0, 0, 0]
                       @ write_LE_32 (bpp * 256 * 2 ^ custom_blocksize_shift opts)))
       \<and> (nanoseconds (t opts) = 0 \<and> custom_blocksize_shift opts \<noteq> STENOS_NO_BLOCK_SHIFT
            \<and> STENOS_MAX_BLOCK_BYTES \<le> bpp * 256 * 2 ^ custom_blocksize_shift opts
          \<longrightarrow> stenos_compress_generic c h opts [] bpp dst_size = Inl InvalidParameter)
       \<and> (nanoseconds (t opts) \<noteq> 0 \<and> 1 \<le> threads opts \<and> threads opts < 2 ^ 26
            \<and> (if custom_blocksize_shift opts = STENOS_NO_BLOCK_SHIFT then 8 else 12) \<le> dst_size
          \<longrightarrow> stenos_compress_generic c h opts [] bpp dst_size
                = Inr ([255, 0, 0, 0, 0, 0, 0, 0]
                       @ (if custom_blocksize_shift opts = STENOS_NO_BLOCK_SHIFT then []
                          else write_LE_32 (super_block_size (bpp * 256)))))
       \<and> (\<forall>frame. 8 \<le> length frame \<and> (frame ! 0 \<le> 4 \<or> frame ! 0 = 255)
                   \<and> read_uint64_7 frame 1 = 0
              \<longrightarrow> stenos_decompress_generic c' h' opts' frame bpp dst = Inr (0, dst))"
proof (intro conjI impI allI)
  assume "nanoseconds (t opts) = 0 \<and> custom_blocksize_shift opts = STENOS_NO_BLOCK_SHIFT
            \<and> 8 \<le> dst_size"
  then show "stenos_compress_generic c h opts [] bpp dst_size = Inr [0, 0, 0, 0, 0, 0, 0, 0]"
    using compress_empty_default [OF assms] by simp
next
  assume "nanoseconds (t opts) = 0 \<and> custom_blocksize_shift opts \<noteq> STENOS_NO_BLOCK_SHIFT
            \<and> bpp * 256 * 2 ^ custom_blocksize_shift opts < STENOS_MAX_BLOCK_BYTES
            \<and> 12 \<le> dst_size"
  then show "stenos_compress_generic c h opts [] bpp dst_size
                = Inr ([255, 0, 0, 0, 0, 0, 0, 0]
                       @ write_LE_32 (bpp * 256 * 2 ^ custom_blocksize_shift opts))"
    using compress_empty_custom(1) [OF assms] by simp
next
  assume "nanoseconds (t opts) = 0 \<and> custom_blocksize_shift opts \<noteq> STENOS_NO_BLOCK_SHIFT
            \<and> STENOS_MAX_BLOCK_BYTES \<le> bpp * 256 * 2 ^ custom_blocksize_shift opts"
  then show "stenos_compress_generic c h opts [] bpp dst_size = Inl InvalidParameter"
    using compress_empty_custom(2) [OF assms] by simp
next
  assume "nanoseconds (t opts) \<noteq> 0 \<and> 1 \<le> threads opts \<and> threads opts < 2 ^ 26
            \<and> (if custom_blocksize_shift opts = STENOS_NO_BLOCK_SHIFT then 8 else 12) \<le> dst_size"
  then show "stenos_compress_generic c h opts [] bpp dst_size
                = Inr ([255, 0, 0, 0, 0, 0, 0, 0]
                       @ (if custom_blocksize_shift opts = STENOS_NO_BLOCK_SHIFT then []
                          else write_LE_32 (super_block_size (bpp * 256))))"
    using compress_empty_timed [OF assms, of opts dst_size c h] by simp
next
  fix frame
  assume "8 \<le> length frame \<and> (frame ! 0 \<le> 4 \<or> frame ! 0 = 255)
                   \<and> read_uint64_7 frame 1 = 0"
  then show "stenos_decompress_generic c' h' opts' frame bpp dst = Inr (0, dst)"
    using decompress_declared_zero [OF assms, of frame c' h' opts' dst] by simp
qed


lemma write_LE_32_4096: "write_LE_32 (16 * 256 * 2 ^ 0) = [0, 16, 0, 0]"
  by (simp add: write_LE_32_def le_bytes_def upt_conv_Cons)

theorem zero_byte_header_witness:
  "stenos_compress_generic plain_coders plain_host stenos_make_context [] 4 16
     = Inr [0, 0, 0, 0, 0, 0, 0, 0]
   \<and> stenos_compress_generic plain_coders plain_host
         (snd (stenos_set_block_size stenos_make_context 0)) [] 16 16
       = Inr [255, 0, 0, 0, 0, 0, 0, 0, 0, 16, 0, 0]
   \<and> stenos_compress_generic plain_coders plain_host
         (snd (stenos_set_max_nanoseconds stenos_make_context 1000)) [] 4 8
       = Inr [255, 0, 0, 0, 0, 0, 0, 0]
   \<and> stenos_decompress_generic plain_coders plain_host stenos_make_context
         [255, 0, 0, 0, 0, 0, 0, 0, 0, 16, 0, 0] 16 [1, 2, 3]
       = Inr (0, [1, 2, 3])"
proof -
  let ?d = stenos_make_context
  let ?k = "snd (stenos_set_block_size stenos_make_context 0)"
  let ?n = "snd (stenos_set_max_nanoseconds stenos_make_context 1000)"
  have b4: "(0::nat) < 4" "(4::nat) < STENOS_MAX_BYTESOFTYPE"
    and b16: "(0::nat) < 16" "(16::nat) < STENOS_MAX_BYTESOFTYPE"
    by (simp_all add: STENOS_MAX_BYTESOFTYPE_def STENOS_MAX_BLOCK_BYTES_def)
  have d: "nanoseconds (t ?d) = 0" "custom_blocksize_shift ?d = STENOS_NO_BLOCK_SHIFT"
    by (simp_all add: stenos_make_context_def make_time_constraint_def)
  have k: "nanoseconds (t ?k) = 0" "custom_blocksize_shift ?k = 0"
    "custom_blocksize_shift ?k \<noteq> STENOS_NO_BLOCK_SHIFT"
    by (simp_all add: stenos_set_block_size_def stenos_make_context_def make_time_constraint_def
        STENOS_NO_BLOCK_SHIFT_def)
  have n: "nanoseconds (t ?n) \<noteq> 0" "1 \<le> threads ?n" "threads ?n < 2 ^ 26"
    "custom_blocksize_shift ?n = STENOS_NO_BLOCK_SHIFT"
    by (simp_all add: stenos_set_max_nanoseconds_def stenos_make_context_def make_time_constraint_def)
  have m: "16 * 256 * 2 ^ custom_blocksize_shift ?k < STENOS_MAX_BLOCK_BYTES"
    by (simp add: k(2) STENOS_MAX_BLOCK_BYTES_def)
  have f: "8 \<le> length [255, 0, 0, 0, 0, 0, 0, 0, 0, 16, 0, 0 :: u8]"
    "[255, 0, 0, 0, 0, 0, 0, 0, 0, 16, 0, 0 :: u8] ! 0 = 255"
    "read_uint64_7 [255, 0, 0, 0, 0, 0, 0, 0, 0, 16, 0, 0] 1 = 0"
    by (simp_all add: read_uint64_7_def read_le_def)
  from zero_byte_header [OF b4, where opts = ?d and dst_size = 16 and c = plain_coders
      and h = plain_host] d
  have 1: "stenos_compress_generic plain_coders plain_host ?d [] 4 16
             = Inr [0, 0, 0, 0, 0, 0, 0, 0]" by simp
  from zero_byte_header [OF b16, where opts = ?k and dst_size = 16 and c = plain_coders
      and h = plain_host] k(1,3) m
  have "stenos_compress_generic plain_coders plain_host ?k [] 16 16
             = Inr ([255, 0, 0, 0, 0, 0, 0, 0] @ write_LE_32 (16 * 256 * 2 ^ custom_blocksize_shift ?k))"
    by simp
  then have 2: "stenos_compress_generic plain_coders plain_host ?k [] 16 16
             = Inr [255, 0, 0, 0, 0, 0, 0, 0, 0, 16, 0, 0]"
    by (simp only: k(2) write_LE_32_4096) simp
  from zero_byte_header [OF b4, where opts = ?n and dst_size = 8 and c = plain_coders
      and h = plain_host] n
  have 3: "stenos_compress_generic plain_coders plain_host ?n [] 4 8
             = Inr [255, 0, 0, 0, 0, 0, 0, 0]" by simp
  from zero_byte_header [OF b16, where c' = plain_coders and h' = plain_host and opts' = ?d
      and dst = "[1, 2, 3]"] f
  have 4: "stenos_decompress_generic plain_coders plain_host ?d
             [255, 0, 0, 0, 0, 0, 0, 0, 0, 16, 0, 0] 16 [1, 2, 3] = Inr (0, [1, 2, 3])"
    by blast
  from 1 2 3 4 show ?thesis by simp
qed

section \<open>The superblock encoder: size of the record\<close>

lemma strategy_codes:
  "1 \<le> STENOS_FRAME_HEADER_BLOCK \<and> STENOS_FRAME_HEADER_BLOCK \<le> 6"
  "1 \<le> STENOS_FRAME_HEADER_ZSTD \<and> STENOS_FRAME_HEADER_ZSTD \<le> 6"
  "1 \<le> STENOS_FRAME_HEADER_TRANSPOSED_ZSTD \<and> STENOS_FRAME_HEADER_TRANSPOSED_ZSTD \<le> 6"
  "1 \<le> STENOS_FRAME_HEADER_TRANSPOSED_DELTA_ZSTD \<and> STENOS_FRAME_HEADER_TRANSPOSED_DELTA_ZSTD \<le> 6"
  "1 \<le> STENOS_FRAME_HEADER_BLOCK_ZSTD \<and> STENOS_FRAME_HEADER_BLOCK_ZSTD \<le> 6"
  "1 \<le> STENOS_FRAME_HEADER_COPY \<and> STENOS_FRAME_HEADER_COPY \<le> 6"
  by (simp_all add: STENOS_FRAME_HEADER_BLOCK_def STENOS_FRAME_HEADER_ZSTD_def
      STENOS_FRAME_HEADER_TRANSPOSED_ZSTD_def STENOS_FRAME_HEADER_TRANSPOSED_DELTA_ZSTD_def
      STENOS_FRAME_HEADER_BLOCK_ZSTD_def STENOS_FRAME_HEADER_COPY_def)

lemma compress_memcpy_record:
  assumes "length src + 4 \<le> dst_size"
  shows "\<exists>code payload. compress_memcpy src dst_size = Inr (code # write_uint32_3 (length payload) @ payload)
           \<and> length payload \<le> length src \<and> 1 \<le> code \<and> code \<le> 6"
  using assms strategy_codes(6) by (auto simp add: compress_memcpy_def Let_def)

lemma emit_record_record:
  assumes "length src + 4 \<le> dst_size" "length pl \<le> length src" "1 \<le> cd \<and> cd \<le> 6"
  shows "\<exists>code payload. emit_record cd pl dst_size = Inr (code # write_uint32_3 (length payload) @ payload)
           \<and> length payload \<le> length src \<and> 1 \<le> code \<and> code \<le> 6"
  using assms by (auto simp add: emit_record_def)

lemma finish_strategy_record:
  assumes "length src + 4 \<le> dst_size" "1 \<le> cd \<and> cd \<le> 6"
  shows "\<exists>code payload. finish_strategy cd r src dst_size = Inr (code # write_uint32_3 (length payload) @ payload)
           \<and> length payload \<le> length src \<and> 1 \<le> code \<and> code \<le> 6"
proof (cases r)
  case (Inl e)
  then show ?thesis using compress_memcpy_record [OF assms(1)] by (simp add: finish_strategy_def)
next
  case (Inr pl)
  show ?thesis
  proof (cases "length pl > length src")
    case True
    then show ?thesis using Inr compress_memcpy_record [OF assms(1)] by (simp add: finish_strategy_def)
  next
    case False
    then have "length pl \<le> length src" by simp
    from emit_record_record [OF assms(1) this assms(2)] False Inr
    show ?thesis by (simp add: finish_strategy_def)
  qed
qed

lemma if_cases_rule: "(b \<Longrightarrow> P x) \<Longrightarrow> (\<not> b \<Longrightarrow> P y) \<Longrightarrow> P (if b then x else y)"
  by simp

lemma sum_cases_rule:
  "(\<And>e. s = Inl e \<Longrightarrow> P (f e)) \<Longrightarrow> (\<And>v. s = Inr v \<Longrightarrow> P (g v))
    \<Longrightarrow> P (case s of Inl e \<Rightarrow> f e | Inr v \<Rightarrow> g v)"
  by (cases s) simp_all

text \<open>
  Claim C2. Whatever the coders return and whatever the clock says, when the destination
  capacity is at least \<open>n + 4\<close> for an input of \<open>n\<close> bytes the superblock encoder
  succeeds and its record is a strategy code between 1 and 6, the 3-byte length of the
  payload and a payload of at most \<open>n\<close> bytes, so at most \<open>n + 4\<close> bytes in all:
  a strategy whose output has an error or is larger than the input ends in \<open>MEMCPY\<close>
  (\<open>NO_ZSTD\<close> for the entropy stage over the block coder).
\<close>

theorem superblock_record_bound:
  assumes "length src + 4 \<le> dst_size"
  shows "\<exists>code payload.
           compress_generic_superblock c ev ctx src bytesoftype dst_size
             = Inr (code # write_uint32_3 (length payload) @ payload)
           \<and> length payload \<le> length src \<and> 1 \<le> code \<and> code \<le> 6"
proof -
  define P where "P = (\<lambda>r :: stenos_error + u8 list.
      \<exists>code payload. r = Inr (code # write_uint32_3 (length payload) @ payload)
           \<and> length payload \<le> length src \<and> 1 \<le> code \<and> code \<le> 6)"
  have m: "P (compress_memcpy src dst_size)"
    unfolding P_def by (rule compress_memcpy_record [OF assms])
  have f: "\<And>cd r. 1 \<le> cd \<and> cd \<le> 6 \<Longrightarrow> P (finish_strategy cd r src dst_size)"
    unfolding P_def by (rule finish_strategy_record [OF assms])
  have e: "\<And>cd pl. length pl \<le> length src \<Longrightarrow> 1 \<le> cd \<and> cd \<le> 6 \<Longrightarrow> P (emit_record cd pl dst_size)"
    unfolding P_def by (rule emit_record_record [OF assms])
  have d: "\<not> dst_size < 4" using assms by simp
  have "P (compress_generic_superblock c ev ctx src bytesoftype dst_size)"
    unfolding compress_generic_superblock_def Let_def
    apply (intro if_cases_rule [where P = P] sum_cases_rule [where P = P] m f e strategy_codes)
    using d apply simp_all
    done
  then show ?thesis unfolding P_def .
qed

theorem superblock_record_bound_witness:
  "length [1, 2, 3 :: u8] + 4 \<le> 7
   \<and> (\<exists>code payload.
         compress_generic_superblock plain_coders plain_env stenos_make_context [1, 2, 3] 1 7
           = Inr (code # write_uint32_3 (length payload) @ payload)
         \<and> length payload \<le> length [1, 2, 3 :: u8] \<and> 1 \<le> code \<and> code \<le> 6)"
  using superblock_record_bound [of "[1, 2, 3]" 7 plain_coders plain_env stenos_make_context 1]
  by simp

section \<open>The frame codec: inputs that fill their last superblock\<close>

lemma le_bytes_Suc: "le_bytes (Suc k) v = of_nat v # le_bytes k (v div 256)"
proof -
  have "[0..<Suc k] = 0 # map Suc [0..<k]"
    by (simp add: upt_conv_Cons map_Suc_upt del: upt_Suc)
  then have "le_bytes (Suc k) v = of_nat (v div 256 ^ 0) # map (\<lambda>i. of_nat (v div 256 ^ Suc i)) [0..<k]"
    unfolding le_bytes_def by (simp add: comp_def del: upt_Suc)
  moreover have "\<And>i. v div 256 ^ Suc i = (v div 256) div 256 ^ i"
    by (simp add: div_mult2_eq)
  ultimately show ?thesis by (simp add: le_bytes_def)
qed

lemma read_le_Cons: "read_le (b # bs) = unat b + 256 * read_le bs"
  by (simp add: read_le_def)

lemma read_le_le_bytes: "v < 256 ^ k \<Longrightarrow> read_le (le_bytes k v) = v"
proof (induction k arbitrary: v)
  case 0
  then show ?case by (simp add: le_bytes_def read_le_def)
next
  case (Suc k)
  have "v div 256 < 256 ^ k" using Suc.prems by (simp add: less_mult_imp_div_less mult.commute)
  then have "read_le (le_bytes k (v div 256)) = v div 256" by (rule Suc.IH)
  moreover have "unat (of_nat v :: u8) = v mod 256" by (simp add: unat_of_nat)
  ultimately show ?case by (simp add: le_bytes_Suc read_le_Cons)
qed


lemma fold_Inl_mono: "fold (decompress_mono_step c h opts src bpp r n) xs (Inl e) = Inl e"
  by (induction xs) (simp_all add: decompress_mono_step_def)

lemma decompress_mono_step_dstp:
  assumes "decompress_mono_step c h opts src bpp 0 n i (Inr (s0, o0, d0)) = Inr (s1, o1, d1)"
  shows "o1 = o0 + (if i = n - 1 then 0 else superblock_size opts mod 2 ^ 32)"
  using assms
  by (auto simp add: decompress_mono_step_def Let_def split: if_splits sum.splits)

lemma decompress_mono_fold_bound:
  assumes "fold (decompress_mono_step c h opts src bpp 0 n) [0..<k] (Inr (s0, 0, d0)) = Inr (s1, o1, d1)"
    and "k \<le> n" "0 < n"
  shows "o1 + (if n \<le> k then superblock_size opts else 0) \<le> k * superblock_size opts"
  using assms
proof (induction k arbitrary: s1 o1 d1)
  case 0
  then show ?case by simp
next
  case (Suc k)
  let ?st = "fold (decompress_mono_step c h opts src bpp 0 n) [0..<k] (Inr (s0, 0, d0))"
  have step: "decompress_mono_step c h opts src bpp 0 n k ?st = Inr (s1, o1, d1)"
    using Suc.prems(1) by simp
  show ?case
  proof (cases ?st)
    case (Inl e)
    then show ?thesis using step by (simp add: decompress_mono_step_def)
  next
    case (Inr st)
    obtain s o' d where st: "st = (s, o', d)" by (cases st)
    have k: "k \<le> n" "\<not> n \<le> k" using Suc.prems(2) by simp_all
    from Suc.IH [of s o' d] Inr st k Suc.prems(3) have b: "o' \<le> k * superblock_size opts" by simp
    have o1: "o1 = o' + (if k = n - 1 then 0 else superblock_size opts mod 2 ^ 32)"
      using decompress_mono_step_dstp [of c h opts src bpp n k s o' d s1 o1 d1] step Inr st by simp
    have m: "superblock_size opts mod 2 ^ 32 \<le> superblock_size opts" by simp
    show ?thesis
    proof (cases "k = n - 1")
      case True
      then have "n \<le> Suc k" by simp
      then show ?thesis using o1 b True by simp
    next
      case False
      then have "\<not> n \<le> Suc k" using Suc.prems(2) by simp
      then show ?thesis using o1 b False m by (simp add: add_le_mono)
    qed
  qed
qed

lemma decompress_mono_exact_multiple:
  assumes "0 < n" "0 < superblock_size opts" "decompressed = n * superblock_size opts"
  shows "\<exists>e. decompress_mono c h opts src bpp decompressed 0 n srcp dst = Inl e"
proof (cases "\<not> ensure_has_buffers_ok h")
  case True
  then show ?thesis by (simp add: decompress_mono_def)
next
  case False
  let ?st = "fold (decompress_mono_step c h opts src bpp 0 n) [0..<n] (Inr (srcp, 0, dst))"
  show ?thesis
  proof (cases ?st)
    case (Inl e)
    then show ?thesis using False by (simp add: decompress_mono_def)
  next
    case (Inr st)
    obtain s o' d where st: "st = (s, o', d)" by (cases st)
    from decompress_mono_fold_bound [of c h opts src bpp n n srcp dst s o' d] Inr st assms(1)
    have "o' + superblock_size opts \<le> n * superblock_size opts" by simp
    then have "o' \<noteq> decompressed" using assms(2,3) by simp
    then show ?thesis using False Inr st by (simp add: decompress_mono_def)
  qed
qed


lemma build_block_dstp:
  assumes "build_block src dsz S 0 chunks i (Inr (s0, o0, b0)) = Inr (s1, o1, b1)"
  shows "o1 = o0 + (if chunks - i - 1 = 0 then 0 else S mod 2 ^ 32)"
  using assms
  by (auto simp add: build_block_def Let_def split: if_splits)

lemma build_block_fold_bound:
  assumes "fold (build_block src dsz S 0 chunks) [0..<k] (Inr (s0, o0, [])) = Inr (s1, o1, b1)"
    and "k \<le> chunks" "0 < chunks"
  shows "o1 + (if chunks \<le> k then S else 0) \<le> o0 + k * S"
  using assms
proof (induction k arbitrary: s1 o1 b1)
  case 0
  then show ?case by simp
next
  case (Suc k)
  let ?st = "fold (build_block src dsz S 0 chunks) [0..<k] (Inr (s0, o0, []))"
  have step: "build_block src dsz S 0 chunks k ?st = Inr (s1, o1, b1)"
    using Suc.prems(1) by simp
  show ?case
  proof (cases ?st)
    case (Inl e)
    then show ?thesis using step by (simp add: build_block_def)
  next
    case (Inr st)
    obtain s o' b where st: "st = (s, o', b)" by (cases st)
    have k: "k \<le> chunks" "\<not> chunks \<le> k" using Suc.prems(2) by simp_all
    from Suc.IH [of s o' b] Inr st k Suc.prems(3) have b: "o' \<le> o0 + k * S" by simp
    have o1: "o1 = o' + (if chunks - k - 1 = 0 then 0 else S mod 2 ^ 32)"
      using build_block_dstp [of src dsz S chunks k s o' b s1 o1 b1] step Inr st by simp
    have m: "S mod 2 ^ 32 \<le> S" by simp
    show ?thesis
    proof (cases "chunks - k - 1 = 0")
      case True
      then have "chunks \<le> Suc k" by simp
      then show ?thesis using o1 b True by simp
    next
      case False
      then have "\<not> chunks \<le> Suc k" by simp
      then show ?thesis using o1 b False m by (simp add: add_le_mono)
    qed
  qed
qed

lemma decompress_wave_bound:
  assumes "decompress_wave c h opts src bpp 0 n base k (s0, o0, d0) = Inr (s1, o1, d1)"
    and "k \<le> n - base" "0 < n - base"
  shows "o1 + (if n - base \<le> k then superblock_size opts else 0) \<le> o0 + k * superblock_size opts"
proof -
  let ?st = "fold (build_block src (length d0) (superblock_size opts) 0 (n - base)) [0..<k]
               (Inr (s0, o0, []))"
  show ?thesis
  proof (cases ?st)
    case (Inl e)
    then show ?thesis using assms(1) by (simp add: decompress_wave_def)
  next
    case (Inr st)
    obtain s o' b where st: "st = (s, o', b)" by (cases st)
    have "o1 = o'"
      using assms(1) Inr st by (auto simp add: decompress_wave_def split: if_splits sum.splits)
    then show ?thesis
      using build_block_fold_bound [of src "length d0" "superblock_size opts" "n - base" k s0 o0 s o' b]
        Inr st assms(2,3) by simp
  qed
qed

lemma decompress_waves_bound:
  assumes "wave_loop (decompress_wave c h opts src bpp 0 n) n nt chunks (s0, o0, d0) = Inr (s1, o1, d1)"
    and "chunks \<le> n" "0 < nt"
  shows "o1 + (if 0 < chunks then superblock_size opts else 0) \<le> o0 + chunks * superblock_size opts"
  using assms
proof (induction chunks arbitrary: s0 o0 d0 rule: less_induct)
  case (less chunks)
  show ?case
  proof (cases "chunks = 0")
    case True
    then show ?thesis using less.prems(1) by (simp add: wave_loop.simps)
  next
    case False
    define tc where "tc = (if nt > chunks then chunks else nt)"
    have tc: "0 < tc" "tc \<le> chunks" using False less.prems(3) by (simp_all add: tc_def)
    have base: "n - (n - chunks) = chunks" using less.prems(2) by simp
    let ?w = "decompress_wave c h opts src bpp 0 n (n - chunks) tc (s0, o0, d0)"
    have unf: "wave_loop (decompress_wave c h opts src bpp 0 n) n nt chunks (s0, o0, d0)
        = (case ?w of Inl e \<Rightarrow> Inl e
           | Inr st' \<Rightarrow> wave_loop (decompress_wave c h opts src bpp 0 n) n nt (chunks - tc) st')"
      using False less.prems(3) unfolding tc_def by (subst wave_loop.simps) (simp add: Let_def)
    show ?thesis
    proof (cases ?w)
      case (Inl e)
      then show ?thesis using unf less.prems(1) by simp
    next
      case (Inr st)
      obtain s o' d where st: "st = (s, o', d)" by (cases st)
      have w: "o' + (if chunks \<le> tc then superblock_size opts else 0) \<le> o0 + tc * superblock_size opts"
        using decompress_wave_bound [of c h opts src bpp n "n - chunks" tc s0 o0 d0 s o' d]
          Inr st tc base False by simp
      have rest: "wave_loop (decompress_wave c h opts src bpp 0 n) n nt (chunks - tc) (s, o', d)
                    = Inr (s1, o1, d1)"
        using unf less.prems(1) Inr st by simp
      show ?thesis
      proof (cases "chunks \<le> tc")
        case True
        then have "chunks - tc = 0" by simp
        then have "o1 = o'" using rest by (simp add: wave_loop.simps)
        moreover have "tc = chunks" using True tc by simp
        ultimately show ?thesis using w True False by simp
      next
        case F2: False
        then have lt: "chunks - tc < chunks" "chunks - tc \<le> n" "0 < chunks - tc"
          using tc less.prems(2) by simp_all
        from less.IH [OF lt(1) rest lt(2) less.prems(3)] lt(3)
        have "o1 + superblock_size opts \<le> o' + (chunks - tc) * superblock_size opts" by simp
        moreover have "o' \<le> o0 + tc * superblock_size opts" using w F2 by simp
        moreover have "tc * superblock_size opts + (chunks - tc) * superblock_size opts
                         = chunks * superblock_size opts"
          using tc by (simp add: add_mult_distrib [symmetric])
        ultimately show ?thesis using False by simp
      qed
    qed
  qed
qed

lemma decompress_multi_exact_multiple:
  assumes "0 < n" "0 < superblock_size opts" "decompressed = n * superblock_size opts"
    and "1 < threads opts"
  shows "\<exists>e. decompress_multi c h opts src bpp decompressed 0 n srcp dst = Inl e"
proof (cases "\<not> ensure_has_buffers_ok h")
  case True
  then show ?thesis by (simp add: decompress_multi_def)
next
  case False
  define nt where "nt = min (nat (threads opts)) n"
  have nt: "0 < nt" using assms(1,4) by (simp add: nt_def)
  let ?st = "wave_loop (decompress_wave c h opts src bpp 0 n) n nt n (srcp, 0, dst)"
  show ?thesis
  proof (cases ?st)
    case (Inl e)
    then show ?thesis using False by (simp add: decompress_multi_def nt_def Let_def)
  next
    case (Inr st)
    obtain s o' d where st: "st = (s, o', d)" by (cases st)
    from decompress_waves_bound [of c h opts src bpp n nt n srcp 0 dst s o' d] Inr st nt assms(1)
    have "o' + superblock_size opts \<le> n * superblock_size opts" by simp
    then have "o' \<noteq> decompressed" using assms(2,3) by simp
    then show ?thesis using False Inr st by (simp add: decompress_multi_def nt_def Let_def)
  qed
qed


lemma compress_mono_fold_prefix:
  assumes "fold (compress_mono_step c h src bpp dsz n) xs (Inr (o0, out0)) = Inr (o1, out1)"
  shows "\<exists>rest. out1 = out0 @ rest"
  using assms
proof (induction xs arbitrary: o0 out0)
  case Nil
  then show ?case by simp
next
  case (Cons x xs)
  have inl: "\<And>e. fold (compress_mono_step c h src bpp dsz n) xs (Inl e) = Inl e"
    by (induction xs) (simp_all add: compress_mono_step_def)
  show ?case
  proof (cases "compress_mono_step c h src bpp dsz n x (Inr (o0, out0))")
    case (Inl e)
    then show ?thesis using Cons.prems inl by simp
  next
    case (Inr st)
    obtain o' out' where st: "st = (o', out')" by (cases st)
    have "\<exists>r. out' = out0 @ r"
      using Inr st by (auto simp add: compress_mono_step_def Let_def split: sum.splits)
    then obtain r where r: "out' = out0 @ r" ..
    from Cons.IH [of o' out'] Cons.prems Inr st obtain rest where "out1 = out' @ rest" by auto
    then show ?thesis using r by simp
  qed
qed

lemma compress_mono_prefix:
  assumes "compress_mono c h opts src bpp dsz n out = Inr frame"
  shows "\<exists>rest. frame = out @ rest"
  using assms compress_mono_fold_prefix [of c h src bpp dsz n "[0..<n]" opts out]
  by (auto simp add: compress_mono_def split: if_splits sum.splits)

lemma memcpy_waves_prefix:
  assumes "wave_loop (\<lambda>base thread_count. memcpy_wave src S dsz thread_count) n nt chunks (s0, out0)
             = Inr (s1, out1)"
  shows "\<exists>rest. out1 = out0 @ rest"
  using assms
proof (induction chunks arbitrary: s0 out0 rule: less_induct)
  case (less chunks)
  show ?case
  proof (cases "chunks = 0 \<or> nt = 0")
    case True
    then show ?thesis using less.prems by (simp add: wave_loop.simps)
  next
    case False
    define tc where "tc = (if nt > chunks then chunks else nt)"
    have tc: "0 < tc" "tc \<le> chunks" using False by (simp_all add: tc_def)
    let ?w = "memcpy_wave src S dsz tc (s0, out0)"
    have unf: "wave_loop (\<lambda>base thread_count. memcpy_wave src S dsz thread_count) n nt chunks (s0, out0)
        = (case ?w of Inl e \<Rightarrow> Inl e
           | Inr st' \<Rightarrow> wave_loop (\<lambda>base thread_count. memcpy_wave src S dsz thread_count) n nt
                         (chunks - tc) st')"
      using False unfolding tc_def by (subst wave_loop.simps) (simp add: Let_def)
    show ?thesis
    proof (cases ?w)
      case (Inl e)
      then show ?thesis using unf less.prems by simp
    next
      case (Inr st)
      obtain s out' where st: "st = (s, out')" by (cases st)
      have "\<exists>r. out' = out0 @ r"
        using Inr st by (auto simp add: memcpy_wave_def Let_def split: if_splits)
      then obtain r where r: "out' = out0 @ r" ..
      have lt: "chunks - tc < chunks" using tc by simp
      from less.IH [OF lt, of s out'] unf less.prems Inr st
      obtain rest where "out1 = out' @ rest" by auto
      then show ?thesis using r by simp
    qed
  qed
qed

lemma compress_waves_prefix:
  assumes "wave_loop (compress_wave c h src bpp dsz) n nt chunks (o0, s0, out0) = Inr (o1, s1, out1)"
  shows "\<exists>rest. out1 = out0 @ rest"
  using assms
proof (induction chunks arbitrary: o0 s0 out0 rule: less_induct)
  case (less chunks)
  show ?case
  proof (cases "chunks = 0 \<or> nt = 0")
    case True
    then show ?thesis using less.prems by (simp add: wave_loop.simps)
  next
    case False
    define tc where "tc = (if nt > chunks then chunks else nt)"
    have tc: "0 < tc" "tc \<le> chunks" using False by (simp_all add: tc_def)
    let ?w = "compress_wave c h src bpp dsz (n - chunks) tc (o0, s0, out0)"
    have unf: "wave_loop (compress_wave c h src bpp dsz) n nt chunks (o0, s0, out0)
        = (case ?w of Inl e \<Rightarrow> Inl e
           | Inr st' \<Rightarrow> wave_loop (compress_wave c h src bpp dsz) n nt (chunks - tc) st')"
      using False unfolding tc_def by (subst wave_loop.simps) (simp add: Let_def)
    show ?thesis
    proof (cases ?w)
      case (Inl e)
      then show ?thesis using unf less.prems by simp
    next
      case (Inr st)
      obtain o' s out' where st: "st = (o', s, out')" by (cases st)
      have "\<exists>r. out' = out0 @ r"
        using Inr st by (auto simp add: compress_wave_def Let_def split: if_splits sum.splits)
      then obtain r where r: "out' = out0 @ r" ..
      have lt: "chunks - tc < chunks" using tc by simp
      from less.IH [OF lt, of o' s out'] unf less.prems Inr st
      obtain rest where "out1 = out' @ rest" by auto
      then show ?thesis using r by simp
    qed
  qed
qed

lemma compress_multi_prefix:
  assumes "compress_multi c h opts src bpp dsz n out = Inr frame"
  shows "\<exists>rest. frame = out @ rest"
proof (cases "nanoseconds (t opts) = 0 \<and> level opts = 0")
  case True
  then show ?thesis
    using assms memcpy_waves_prefix [of src "superblock_size opts" dsz n
        "min (nat (threads opts)) n" n 0 out]
    by (auto simp add: compress_multi_def Let_def split: if_splits sum.splits)
next
  case False
  then show ?thesis
    using assms compress_waves_prefix [of c h src bpp dsz n "min (nat (threads opts)) n" n opts 0 out]
    by (auto simp add: compress_multi_def Let_def split: if_splits sum.splits)
qed

lemma compress_frame_header:
  assumes "stenos_compress_generic c h opts src bpp dsz = Inr frame"
  shows "\<exists>opts1 rest. prepare opts bpp (length src) = (None, opts1)
           \<and> frame = of_int (shift opts1) # write_uint64_7 (length src)
                      @ (if custom_blocksize_shift opts1 \<noteq> STENOS_NO_BLOCK_SHIFT
                         then write_LE_32 (superblock_size opts1) else [])
                      @ rest"
proof -
  obtain e opts1 where p: "prepare opts bpp (length src) = (e, opts1)"
    by (cases "prepare opts bpp (length src)")
  have e: "e = None" using assms p by (cases e) (simp_all add: stenos_compress_generic_def)
  let ?out = "of_int (shift opts1) # write_uint64_7 (length src)
                      @ (if custom_blocksize_shift opts1 \<noteq> STENOS_NO_BLOCK_SHIFT
                         then write_LE_32 (superblock_size opts1) else [])"
  let ?n = "length src div superblock_size opts1
              + (if length src mod superblock_size opts1 \<noteq> 0 then 1 else 0)"
  have "frame = ?out \<or> compress_mono c h opts1 src bpp dsz ?n ?out = Inr frame
        \<or> compress_multi c h opts1 src bpp dsz ?n ?out = Inr frame"
    using assms by (auto simp add: stenos_compress_generic_def p e Let_def split: if_splits)
  then have "\<exists>rest. frame = ?out @ rest"
    using compress_mono_prefix [of c h opts1 src bpp dsz ?n ?out frame]
      compress_multi_prefix [of c h opts1 src bpp dsz ?n ?out frame] by auto
  then show ?thesis using p e by auto
qed


lemma level_shift_range:
  assumes "0 \<le> (l::int)" "l \<le> 9" "l \<noteq> 0"
  shows "0 \<le> (l - 1) sdiv 2 \<and> (l - 1) sdiv 2 \<le> 4"
proof -
  have "(l - 1) sdiv 2 = (l - 1) div 2" using assms by (simp add: signed_divide_int_def sgn_if)
  then show ?thesis using assms by simp
qed

lemma prepare_ok_facts:
  assumes "prepare opts bpp n = (None, opts1)" "nanoseconds (t opts) = 0"
    "0 \<le> level opts" "level opts \<le> 9"
  shows "0 < bpp" "bpp < STENOS_MAX_BYTESOFTYPE"
    "0 < superblock_size opts1" "superblock_size opts1 < STENOS_MAX_BLOCK_BYTES"
    "custom_blocksize_shift opts1 = custom_blocksize_shift opts"
    "custom_blocksize_shift opts \<noteq> STENOS_NO_BLOCK_SHIFT \<Longrightarrow> shift opts1 = 255"
    "custom_blocksize_shift opts = STENOS_NO_BLOCK_SHIFT \<Longrightarrow>
       0 \<le> shift opts1 \<and> shift opts1 \<le> 4
       \<and> superblock_size opts1 = super_block_size (bpp * 256) * 2 ^ nat (shift opts1)"
proof -
  show b: "0 < bpp" "bpp < STENOS_MAX_BYTESOFTYPE"
    using assms(1) by (auto simp add: prepare_def split: if_splits)
  define bs where "bs = bpp * 256"
  define r where "r = (if custom_blocksize_shift opts \<noteq> STENOS_NO_BLOCK_SHIFT
                       then (bs * 2 ^ custom_blocksize_shift opts, 255 :: int)
                       else if n > super_block_size bs
                       then (let s = (if level opts \<noteq> 0 then (level opts - 1) sdiv 2 else 0)
                             in (super_block_size bs * 2 ^ nat s, s))
                       else (super_block_size bs, 0))"
  have p: "prepare opts bpp n =
            (if fst r < bs \<or> fst r \<ge> STENOS_MAX_BLOCK_BYTES
             then (Some InvalidParameter, opts\<lparr>shift := snd r\<rparr>)
             else (None, opts\<lparr>shift := snd r, superblock_size := fst r\<rparr>))"
    using b assms(2) by (simp add: prepare_def r_def bs_def Let_def split_def)
  have ok: "\<not> fst r < bs" "fst r < STENOS_MAX_BLOCK_BYTES"
    and o1: "opts1 = opts\<lparr>shift := snd r, superblock_size := fst r\<rparr>"
    using assms(1) p by (auto split: if_splits)
  have "0 < bs" using b by (simp add: bs_def)
  then show "0 < superblock_size opts1" using ok o1 by simp
  show "superblock_size opts1 < STENOS_MAX_BLOCK_BYTES" using ok o1 by simp
  show "custom_blocksize_shift opts1 = custom_blocksize_shift opts" using o1 by simp
  show "custom_blocksize_shift opts \<noteq> STENOS_NO_BLOCK_SHIFT \<Longrightarrow> shift opts1 = 255"
    using o1 by (simp add: r_def)
  show "custom_blocksize_shift opts = STENOS_NO_BLOCK_SHIFT \<Longrightarrow>
       0 \<le> shift opts1 \<and> shift opts1 \<le> 4
       \<and> superblock_size opts1 = super_block_size (bpp * 256) * 2 ^ nat (shift opts1)"
    using o1 level_shift_range [OF assms(3,4)]
    by (auto simp add: r_def Let_def bs_def)
qed


lemma decompress_exact_multiple:
  assumes "0 < bpp" "bpp < STENOS_MAX_BYTESOFTYPE" "8 \<le> length frame"
    and "read_uint64_7 frame 1 = k * S" "0 < k" "0 < S"
    and "frame ! 0 = 255 \<Longrightarrow> read_LE_32 frame 8 = S"
    and "frame ! 0 \<noteq> 255 \<Longrightarrow> super_block_size (bpp * 256) * 2 ^ unat (frame ! 0) = S"
  shows "\<exists>e. stenos_decompress_generic c h opts frame bpp dst = Inl e"
proof -
  let ?o = "opts\<lparr>superblock_size := S\<rparr>"
  have m: "\<And>srcp. \<exists>e. decompress_mono c h ?o frame bpp (k * S) 0 k srcp dst = Inl e"
    by (rule decompress_mono_exact_multiple) (use assms(5,6) in simp_all)
  have mt: "\<And>srcp. 1 < threads opts \<Longrightarrow>
              \<exists>e. decompress_multi c h ?o frame bpp (k * S) 0 k srcp dst = Inl e"
    by (rule decompress_multi_exact_multiple) (use assms(5,6) in simp_all)
  have S: "(if frame ! 0 = 255 then read_LE_32 frame 8
            else super_block_size (bpp * 256) * 2 ^ unat (frame ! 0)) = S"
    using assms(7,8) by simp
  have kS: "k * S \<noteq> 0" "k * S mod S = 0" "k * S div S = k" using assms(5,6) by simp_all
  show ?thesis
    unfolding stenos_decompress_generic_def Let_def assms(4) S kS
    using assms(1,2,3,5,6) m mt by (auto simp add: not_le)
qed


lemma frame_header_fields:
  fixes sh :: u8
  assumes "frame = sh # write_uint64_7 n @ cust @ rest" "n < 2 ^ 56"
  shows "8 \<le> length frame" "frame ! 0 = sh" "read_uint64_7 frame 1 = n"
    "drop 8 frame = cust @ rest"
proof -
  have "n < 2 ^ 64" using assms(2) by (rule less_trans) simp
  then have w: "write_uint64_7 n = le_bytes 7 n" unfolding write_uint64_7_def by (simp only: mod_less)
  have l: "length (write_uint64_7 n) = 7" by (simp add: w length_le_bytes)
  show "8 \<le> length frame" using assms(1) l by simp
  show "frame ! 0 = sh" using assms(1) by simp
  have "n < 256 ^ 7" using assms(2) by simp
  then have "read_le (le_bytes 7 n) = n" by (rule read_le_le_bytes)
  then show "read_uint64_7 frame 1 = n"
    using assms(1) by (simp add: read_uint64_7_def w length_le_bytes)
  show "drop 8 frame = cust @ rest" using assms(1) l by simp
qed

lemma read_LE_32_custom:
  assumes "drop 8 frame = write_LE_32 S @ rest" "S < 2 ^ 32"
  shows "read_LE_32 frame 8 = S"
proof -
  have "S < 256 ^ 4" using assms(2) by simp
  then have "read_le (le_bytes 4 S) = S" by (rule read_le_le_bytes)
  moreover have "write_LE_32 S = le_bytes 4 S"
    unfolding write_LE_32_def using assms(2) by (simp only: mod_less)
  ultimately show ?thesis
    using assms(1) by (simp add: read_LE_32_def length_le_bytes)
qed

lemma shift_byte:
  assumes "0 \<le> (s::int)" "s \<le> 4"
  shows "(of_int s :: u8) \<noteq> 255" "unat (of_int s :: u8) = nat s"
proof -
  have "s = 0 \<or> s = 1 \<or> s = 2 \<or> s = 3 \<or> s = 4" using assms by arith
  then show "(of_int s :: u8) \<noteq> 255" "unat (of_int s :: u8) = nat s" by auto
qed

text \<open>
  Claim C1, on the inputs whose length is a positive multiple of the superblock size.
  The decoder gives the last superblock of a frame the length
  \<open>decompressed % superblock_size\<close>, which is 0 for these inputs instead of the
  superblock size. So for every context without time budget and with a level in 0..9,
  every width, every thread count on both sides, every behaviour of the coders and every
  destination capacity: when compression succeeds, decompressing the frame returns an
  error, never the length of the input. (The decoder writes at most
  \<open>decompressed - superblock_size\<close> bytes, then fails its own final check
  \<open>output_size != decompressed\<close> if no record failed before.)
\<close>

theorem roundtrip_fails_on_superblock_multiple:
  assumes "nanoseconds (t opts) = 0" "0 \<le> level opts" "level opts \<le> 9"
    and "0 < length src" "length src < 2 ^ 56"
    and "length src mod superblock_size (snd (prepare opts bpp (length src))) = 0"
    and "stenos_compress_generic c h opts src bpp dst_size = Inr frame"
  shows "\<exists>e. stenos_decompress_generic c' h' opts' frame bpp dst = Inl e"
proof -
  from compress_frame_header [OF assms(7)] obtain opts1 rest where
    p: "prepare opts bpp (length src) = (None, opts1)"
    and f: "frame = of_int (shift opts1) # write_uint64_7 (length src)
                      @ (if custom_blocksize_shift opts1 \<noteq> STENOS_NO_BLOCK_SHIFT
                         then write_LE_32 (superblock_size opts1) else [])
                      @ rest"
    by blast
  note pf = prepare_ok_facts [OF p assms(1,2,3)]
  let ?S = "superblock_size opts1"
  define k where "k = length src div ?S"
  have m: "length src mod ?S = 0" using assms(6) p by simp
  then have n: "length src = k * ?S" unfolding k_def by auto
  have k: "0 < k" using n assms(4) by (cases k) simp_all
  note hf = frame_header_fields [OF f assms(5)]
  have S32: "?S < 2 ^ 32" using pf(4) by (simp add: STENOS_MAX_BLOCK_BYTES_def)
  show ?thesis
  proof (rule decompress_exact_multiple [OF pf(1,2) hf(1) _ k pf(3)])
    show "read_uint64_7 frame 1 = k * ?S" using hf(3) n by simp
  next
    assume "frame ! 0 = 255"
    then have c: "custom_blocksize_shift opts \<noteq> STENOS_NO_BLOCK_SHIFT"
      using hf(2) pf(7) shift_byte(1) by metis
    then have "drop 8 frame = write_LE_32 ?S @ rest" using hf(4) pf(5) by simp
    then show "read_LE_32 frame 8 = ?S" using S32 by (rule read_LE_32_custom)
  next
    assume a: "frame ! 0 \<noteq> 255"
    have c: "custom_blocksize_shift opts = STENOS_NO_BLOCK_SHIFT"
    proof (rule ccontr)
      assume "custom_blocksize_shift opts \<noteq> STENOS_NO_BLOCK_SHIFT"
      then have "shift opts1 = 255" by (rule pf(6))
      then show False using a hf(2) by simp
    qed
    from pf(7) [OF c] have s: "0 \<le> shift opts1" "shift opts1 \<le> 4"
      and S: "?S = super_block_size (bpp * 256) * 2 ^ nat (shift opts1)" by simp_all
    show "super_block_size (bpp * 256) * 2 ^ unat (frame ! 0) = ?S"
      using hf(2) shift_byte(2) [OF s] S by simp
  qed
qed


text \<open>The smallest such input for the width 1: 131072 bytes at level 0, one superblock,
  stored as one \<open>COPY\<close> record; the decoder rejects the record with
  \<open>STENOS_ERROR_INVALID_INPUT\<close> because its \<open>dsize\<close> is 0 and its \<open>csize\<close> is
  131072.\<close>

lemma prepare_level0_131072:
  "prepare (stenos_make_context\<lparr>level := 0\<rparr>) 1 131072
     = (None, stenos_make_context\<lparr>level := 0, shift := 0, superblock_size := 131072\<rparr>)"
  by (simp add: prepare_def stenos_make_context_def make_time_constraint_def Let_def
      STENOS_MAX_BYTESOFTYPE_def STENOS_MAX_BLOCK_BYTES_def STENOS_NO_BLOCK_SHIFT_def
      super_block_size_def STENOS_BLOCK_SIZE_def)

lemma compress_level0_131072:
  assumes "length src = 131072" "131084 \<le> dst_size" "ensure_has_buffers_ok h"
  shows "stenos_compress_generic c h (stenos_make_context\<lparr>level := 0\<rparr>) src 1 dst_size
           = Inr (0 # write_uint64_7 131072 @ STENOS_FRAME_HEADER_COPY # write_uint32_3 131072 @ src)"
  unfolding stenos_compress_generic_def Let_def assms(1) prepare_level0_131072
  using assms
  by (simp add: stenos_make_context_def
      make_time_constraint_def compress_mono_def compress_mono_step_def
      compress_generic_superblock_def compress_memcpy_def Let_def
      write_uint64_7_def length_le_bytes)


lemma decompress_level0_131072:
  assumes "length src = 131072" "131072 \<le> length dst" "ensure_has_buffers_ok h"
  shows "stenos_decompress_generic c h opts
           (0 # write_uint64_7 131072 @ STENOS_FRAME_HEADER_COPY # write_uint32_3 131072 @ src) 1 dst
         = Inl InvalidInput"
proof -
  define F where "F = 0 # write_uint64_7 131072 @ [] @ STENOS_FRAME_HEADER_COPY # write_uint32_3 131072 @ src"
  have "(131072::nat) < 2 ^ 56" by simp
  note hf = frame_header_fields [OF F_def this]
  have w3: "write_uint32_3 131072 = le_bytes 3 131072" by (simp add: write_uint32_3_def)
  have r3: "read_le (le_bytes 3 131072) = 131072" by (rule read_le_le_bytes) simp
  have h4: "drop 8 F = STENOS_FRAME_HEADER_COPY # write_uint32_3 131072 @ src" using hf(4) by simp
  have len: "length F = 131084"
    using assms(1) by (simp add: F_def write_uint64_7_def w3 length_le_bytes)
  have code: "F ! 8 = STENOS_FRAME_HEADER_COPY"
  proof -
    have "8 < length F" by (simp only: len)
    then have "hd (drop 8 F) = F ! 8" by (rule hd_drop_conv_nth)
    then show ?thesis by (simp only: h4 list.sel)
  qed
  have "drop 9 F = drop 1 (drop 8 F)" by simp
  then have d9: "drop 9 F = write_uint32_3 131072 @ src" using h4 by simp
  have "drop 12 F = drop 3 (drop 9 F)" by simp
  then have d12: "drop 12 F = src" using d9 by (simp add: w3 length_le_bytes)
  have cs: "read_uint32_3 F 9 = 131072"
    by (simp only: read_uint32_3_def d9) (simp add: w3 length_le_bytes r3)
  have step: "decompress_mono_step c h (opts\<lparr>superblock_size := 131072\<rparr>) F 1 0 1 0 (Inr (8, 0, dst))
                = Inl InvalidInput"
    using assms(1)
    by (simp add: decompress_mono_step_def cs code d12 len
        decompress_generic_superblock_def STENOS_FRAME_HEADER_COPY_def
        STENOS_FRAME_HEADER_BLOCK_def STENOS_FRAME_HEADER_ZSTD_def
        STENOS_FRAME_HEADER_TRANSPOSED_ZSTD_def STENOS_FRAME_HEADER_TRANSPOSED_DELTA_ZSTD_def
        STENOS_FRAME_HEADER_BLOCK_ZSTD_def)
  have S: "super_block_size (1 * 256) * 2 ^ unat (0 :: u8) = 131072"
    by (simp add: super_block_size_def STENOS_BLOCK_SIZE_def)
  have l8: "\<not> 8 > length F" using len by simp
  have "stenos_decompress_generic c h opts F 1 dst = Inl InvalidInput"
    unfolding stenos_decompress_generic_def Let_def hf(2,3) S
    using assms(2,3) l8 step
    by (simp add: STENOS_MAX_BYTESOFTYPE_def STENOS_MAX_BLOCK_BYTES_def decompress_mono_def)
  then show ?thesis by (simp add: F_def)
qed


theorem roundtrip_fails_on_superblock_multiple_witness:
  "nanoseconds (t (stenos_make_context\<lparr>level := 0\<rparr>)) = 0
   \<and> 0 \<le> level (stenos_make_context\<lparr>level := 0\<rparr>)
   \<and> level (stenos_make_context\<lparr>level := 0\<rparr>) \<le> 9
   \<and> 0 < length (replicate 131072 (0::u8))
   \<and> length (replicate 131072 (0::u8)) < 2 ^ 56
   \<and> length (replicate 131072 (0::u8))
         mod superblock_size (snd (prepare (stenos_make_context\<lparr>level := 0\<rparr>) 1
                                     (length (replicate 131072 (0::u8))))) = 0
   \<and> stenos_compress_generic plain_coders plain_host (stenos_make_context\<lparr>level := 0\<rparr>)
         (replicate 131072 0) 1 131092
       = Inr (0 # write_uint64_7 131072 @ STENOS_FRAME_HEADER_COPY # write_uint32_3 131072
                @ replicate 131072 0)
   \<and> (\<exists>e. stenos_decompress_generic plain_coders plain_host stenos_make_context
               (0 # write_uint64_7 131072 @ STENOS_FRAME_HEADER_COPY # write_uint32_3 131072
                  @ replicate 131072 0) 1 (replicate 131072 0) = Inl e)"
proof -
  let ?ctx = "stenos_make_context\<lparr>level := 0\<rparr>"
  let ?src = "replicate 131072 (0::u8)"
  have a: "nanoseconds (t ?ctx) = 0" "0 \<le> level ?ctx" "level ?ctx \<le> 9"
    by (simp_all add: stenos_make_context_def make_time_constraint_def)
  have b: "0 < length ?src" "length ?src < 2 ^ 56" by simp_all
  have l: "length ?src = 131072" by simp
  have m: "length ?src mod superblock_size (snd (prepare ?ctx 1 (length ?src))) = 0"
    by (simp only: l prepare_level0_131072) simp
  have c: "stenos_compress_generic plain_coders plain_host ?ctx ?src 1 131092
       = Inr (0 # write_uint64_7 131072 @ STENOS_FRAME_HEADER_COPY # write_uint32_3 131072 @ ?src)"
    by (rule compress_level0_131072) (simp_all add: plain_host_def)
  from roundtrip_fails_on_superblock_multiple [OF a b m c]
  have "\<exists>e. stenos_decompress_generic plain_coders plain_host stenos_make_context
               (0 # write_uint64_7 131072 @ STENOS_FRAME_HEADER_COPY # write_uint32_3 131072 @ ?src)
               1 ?src = Inl e" .
  with a b m c show ?thesis by blast
qed

section \<open>Byte transposition: the SSE2 inverse at the width 12\<close>

lemma upt16: "[0..<16] = [0, 1, 2, 3, 4, 5, 6, 7, 8, 9, 10, 11, 12, 13, 14, 15]"
  by (simp add: upt_conv_Cons)

lemma reg16_explicit:
  assumes "length a = 16"
  shows "a = [a ! 0, a ! 1, a ! 2, a ! 3, a ! 4, a ! 5, a ! 6, a ! 7, a ! 8, a ! 9, a ! 10, a ! 11,
              a ! 12, a ! 13, a ! 14, a ! 15]"
proof -
  have "a = map ((!) a) [0..<length a]" by (simp add: map_nth)
  then show ?thesis unfolding assms upt16 by simp
qed

lemma unpackhi_epi8_12:
  assumes "length a = 16" "length b = 16"
  shows "mm_unpackhi_epi8 a b ! 12 = a ! 14"
  by (subst reg16_explicit [OF assms(1)], subst reg16_explicit [OF assms(2)])
     (simp add: mm_unpackhi_epi8_def interleave_lanes_def upt_conv_Cons)


lemma length_unpack [simp]:
  assumes "length a = 16" "length b = 16"
  shows "length (mm_unpacklo_epi8 a b) = 16" "length (mm_unpackhi_epi8 a b) = 16"
    "length (mm_unpacklo_epi16 a b) = 16" "length (mm_unpackhi_epi16 a b) = 16"
    "length (mm_unpacklo_epi32 a b) = 16" "length (mm_unpackhi_epi32 a b) = 16"
    "length (mm_unpacklo_epi64 a b) = 16" "length (mm_unpackhi_epi64 a b) = 16"
  by (subst reg16_explicit [OF assms(1)], subst reg16_explicit [OF assms(2)],
      simp add: mm_unpacklo_epi8_def mm_unpackhi_epi8_def mm_unpacklo_epi16_def
        mm_unpackhi_epi16_def mm_unpacklo_epi32_def mm_unpackhi_epi32_def
        mm_unpacklo_epi64_def mm_unpackhi_epi64_def interleave_lanes_def upt_conv_Cons)+

lemma unpackhi_epi16_8:
  assumes "length a = 16" "length b = 16"
  shows "mm_unpackhi_epi16 a b ! 8 = a ! 12"
  by (subst reg16_explicit [OF assms(1)], subst reg16_explicit [OF assms(2)])
     (simp add: mm_unpackhi_epi16_def interleave_lanes_def upt_conv_Cons)

lemma unpackhi_epi32_4:
  assumes "length a = 16" "length b = 16"
  shows "mm_unpackhi_epi32 a b ! 4 = b ! 8"
  by (subst reg16_explicit [OF assms(1)], subst reg16_explicit [OF assms(2)])
     (simp add: mm_unpackhi_epi32_def interleave_lanes_def upt_conv_Cons)

lemma unpacklo_epi64_12:
  assumes "length a = 16" "length b = 16"
  shows "mm_unpacklo_epi64 a b ! 12 = b ! 4"
  by (subst reg16_explicit [OF assms(1)], subst reg16_explicit [OF assms(2)])
     (simp add: mm_unpacklo_epi64_def interleave_lanes_def upt_conv_Cons)

lemma unpack_stage_nth:
  assumes "j < 8"
  shows "unpack_stage lo hi 8 xmm ! j = lo (xmm ! (j * 2)) (xmm ! (j * 2 + 1))"
    and "unpack_stage lo hi 8 xmm ! (8 + j) = hi (xmm ! (j * 2)) (xmm ! (j * 2 + 1))"
  using assms by (simp_all add: unpack_stage_def nth_append)

lemma length_unpack_stage: "length (unpack_stage lo hi h xmm) = 2 * h"
  by (simp add: unpack_stage_def)


lemma length_mm_storeu [simp]: "length (mm_storeu w mem p v) = length mem"
  unfolding mm_storeu_def by (induction w) simp_all

lemma nth_mm_storeu:
  assumes "q < length mem"
  shows "mm_storeu w mem p v ! q = (if p \<le> q \<and> q < p + w then v ! (q - p) else mem ! q)"
  using assms
proof (induction w)
  case 0
  then show ?case by (auto simp add: mm_storeu_def)
next
  case (Suc w)
  have l: "length (fold (\<lambda>k m. m[p + k := v ! k]) [0..<w] mem) = length mem"
    using length_mm_storeu [of w mem p v] by (simp add: mm_storeu_def)
  show ?case
  proof (cases "q = p + w")
    case True
    then show ?thesis using Suc.prems l by (simp add: mm_storeu_def)
  next
    case False
    then have "mm_storeu (Suc w) mem p v ! q = mm_storeu w mem p v ! q"
      by (simp add: mm_storeu_def)
    then show ?thesis using Suc False by auto
  qed
qed

lemma stores_untouched:
  assumes "q < length dest" "\<And>e. e < n \<Longrightarrow> \<not> (addr e \<le> q \<and> q < addr e + 16)"
  shows "length (fold (\<lambda>e d. mm_storeu_si128 d (addr e) (xmm ! (order ! e))) [0..<n] dest) = length dest
       \<and> fold (\<lambda>e d. mm_storeu_si128 d (addr e) (xmm ! (order ! e))) [0..<n] dest ! q = dest ! q"
  using assms
proof (induction n)
  case 0
  then show ?case by simp
next
  case (Suc n)
  have ih: "length (fold (\<lambda>e d. mm_storeu_si128 d (addr e) (xmm ! (order ! e))) [0..<n] dest) = length dest
       \<and> fold (\<lambda>e d. mm_storeu_si128 d (addr e) (xmm ! (order ! e))) [0..<n] dest ! q = dest ! q"
    using Suc by simp
  have n: "\<not> (addr n \<le> q \<and> q < addr n + 16)" using Suc.prems(2) [of n] by simp
  show ?case using ih n Suc.prems(1) by (auto simp add: mm_storeu_si128_def nth_mm_storeu)
qed

lemma maskmove_untouched:
  assumes "\<not> bit (msk ! 0) 7" "q = p"
  shows "mm_maskmoveu_si128 mem a msk p ! q = mem ! q"
proof -
  have "\<And>ks m. \<forall>k\<in>set ks. k \<noteq> 0 \<or> \<not> bit (msk ! k) 7 \<Longrightarrow>
          fold (\<lambda>k m. if bit (msk ! k) 7 then m[p + k := a ! k] else m) ks m ! p = m ! p"
  proof -
    fix ks :: "nat list" and m :: "u8 list"
    show "\<forall>k\<in>set ks. k \<noteq> 0 \<or> \<not> bit (msk ! k) 7 \<Longrightarrow>
          fold (\<lambda>k m. if bit (msk ! k) 7 then m[p + k := a ! k] else m) ks m ! p = m ! p"
      by (induction ks arbitrary: m) auto
  qed
  note h = this
  have "\<forall>k\<in>set [0..<16]. k \<noteq> 0 \<or> \<not> bit (msk ! k) 7"
  proof
    fix k assume "k \<in> set [0..<16]"
    show "k \<noteq> 0 \<or> \<not> bit (msk ! k) 7" using assms(1) by (cases "k = 0") simp_all
  qed
  then have "fold (\<lambda>k m. if bit (msk ! k) 7 then m[p + k := a ! k] else m) [0..<16] mem ! p = mem ! p"
    by (rule h)
  then show ?thesis using assms(2) by (simp add: mm_maskmoveu_si128_def)
qed


lemma unpack_stage_regs:
  assumes "length xmm = 16" "\<forall>r\<in>set xmm. length r = 16"
    and "\<And>a b. length a = 16 \<Longrightarrow> length b = 16 \<Longrightarrow> length (lo a b) = 16"
    and "\<And>a b. length a = 16 \<Longrightarrow> length b = 16 \<Longrightarrow> length (hi a b) = 16"
  shows "length (unpack_stage lo hi 8 xmm) = 16"
    and "\<forall>r\<in>set (unpack_stage lo hi 8 xmm). length r = 16"
proof -
  show "length (unpack_stage lo hi 8 xmm) = 16" by (simp add: unpack_stage_def)
  have "\<And>j. j < 8 \<Longrightarrow> length (xmm ! (j * 2)) = 16 \<and> length (xmm ! (j * 2 + 1)) = 16"
    using assms(1,2) by simp
  then show "\<forall>r\<in>set (unpack_stage lo hi 8 xmm). length r = 16"
    using assms(3,4) by (auto simp add: unpack_stage_def)
qed

lemma untranspose16_stages_7_12:
  assumes "length X = 16" "\<forall>r\<in>set X. length r = 16"
  shows "untranspose16_stages X ! 7 ! 12 = X ! 12 ! 14"
proof -
  define s1 where "s1 = unpack_stage mm_unpacklo_epi8 mm_unpackhi_epi8 8 X"
  define s2 where "s2 = unpack_stage mm_unpacklo_epi16 mm_unpackhi_epi16 8 s1"
  define s3 where "s3 = unpack_stage mm_unpacklo_epi32 mm_unpackhi_epi32 8 s2"
  have r1: "length s1 = 16" "\<forall>r\<in>set s1. length r = 16"
    unfolding s1_def by (rule unpack_stage_regs [OF assms]; simp)+
  have r2: "length s2 = 16" "\<forall>r\<in>set s2. length r = 16"
    unfolding s2_def by (rule unpack_stage_regs [OF r1]; simp)+
  have r3: "length s3 = 16" "\<forall>r\<in>set s3. length r = 16"
    unfolding s3_def by (rule unpack_stage_regs [OF r2]; simp)+
  have n: "\<And>xs k. length xs = 16 \<Longrightarrow> \<forall>r\<in>set xs. length r = 16 \<Longrightarrow> k < 16
            \<Longrightarrow> length (xs ! k) = 16"
    by simp
  have "untranspose16_stages X ! 7 = mm_unpacklo_epi64 (s3 ! 14) (s3 ! 15)"
    using unpack_stage_nth(1) [of 7 mm_unpacklo_epi64 mm_unpackhi_epi64 s3]
    by (simp add: untranspose16_stages_def s1_def s2_def s3_def Let_def)
  then have "untranspose16_stages X ! 7 ! 12 = s3 ! 15 ! 4"
    using unpacklo_epi64_12 [of "s3 ! 14" "s3 ! 15"] n [OF r3] by simp
  moreover have "s3 ! 15 = mm_unpackhi_epi32 (s2 ! 14) (s2 ! 15)"
    using unpack_stage_nth(2) [of 7 mm_unpacklo_epi32 mm_unpackhi_epi32 s2] by (simp add: s3_def)
  then have "s3 ! 15 ! 4 = s2 ! 15 ! 8"
    using unpackhi_epi32_4 [of "s2 ! 14" "s2 ! 15"] n [OF r2] by simp
  moreover have "s2 ! 15 = mm_unpackhi_epi16 (s1 ! 14) (s1 ! 15)"
    using unpack_stage_nth(2) [of 7 mm_unpacklo_epi16 mm_unpackhi_epi16 s1] by (simp add: s2_def)
  then have "s2 ! 15 ! 8 = s1 ! 14 ! 12"
    using unpackhi_epi16_8 [of "s1 ! 14" "s1 ! 15"] n [OF r1] by simp
  moreover have "s1 ! 14 = mm_unpackhi_epi8 (X ! 12) (X ! 13)"
    using unpack_stage_nth(2) [of 6 mm_unpacklo_epi8 mm_unpackhi_epi8 X] by (simp add: s1_def)
  then have "s1 ! 14 ! 12 = X ! 12 ! 14"
    using unpackhi_epi8_12 [of "X ! 12" "X ! 13"] n [OF assms] by simp
  ultimately show ?thesis by simp
qed


lemma length_store_in_order [simp]: "length (store_in_order dest addr xmm order) = length dest"
proof -
  have "\<And>ks d. length (fold (\<lambda>e d. mm_storeu_si128 d (addr e) (xmm ! (order ! e))) ks d) = length d"
  proof -
    fix ks :: "nat list" and d :: "u8 list"
    show "length (fold (\<lambda>e d. mm_storeu_si128 d (addr e) (xmm ! (order ! e))) ks d) = length d"
      by (induction ks arbitrary: d) (simp_all add: mm_storeu_si128_def)
  qed
  then show ?thesis by (simp add: store_in_order_def)
qed

lemma length_maskmoveu [simp]: "length (mm_maskmoveu_si128 mem a msk p) = length mem"
proof -
  have "\<And>ks m. length (fold (\<lambda>k m. if bit (msk ! k) 7 then m[p + k := a ! k] else m) ks m) = length m"
  proof -
    fix ks :: "nat list" and m :: "u8 list"
    show "length (fold (\<lambda>k m. if bit (msk ! k) 7 then m[p + k := a ! k] else m) ks m) = length m"
      by (induction ks arbitrary: m) simp_all
  qed
  then show ?thesis by (simp add: mm_maskmoveu_si128_def)
qed

lemma length_unshuffle12_step [simp]:
  "length (fst (unshuffle12_step src tot i (dest, xmm1))) = length dest"
  by (simp add: unshuffle12_step_def Let_def)

lemma unshuffle12_step_180:
  assumes "180 < length dest" "length xmm1 = 16" "\<forall>r\<in>set xmm1. length r = 16"
  shows "fst (unshuffle12_step src 16 0 (dest, xmm1)) ! 180 = xmm1 ! 12 ! 14"
proof -
  define X where "X = map (\<lambda>j. mm_loadu_si128 src (j * 16)) [0..<12] @ drop 12 xmm1"
  define F where "F = untranspose16_stages X"
  have lX: "length X = 16" using assms(2) by (simp add: X_def)
  have "\<forall>r\<in>set (drop 12 xmm1). length r = 16" using assms(3) by (meson in_set_dropD)
  then have rX: "\<forall>r\<in>set X. length r = 16"
    by (auto simp add: X_def mm_loadu_si128_def mm_loadu_def)
  have X12: "X ! 12 = xmm1 ! 12" using assms(2) by (simp add: X_def nth_append)
  define d14 where "d14 = fold (\<lambda>e d. mm_storeu_si128 d (e * 12) (F ! (take 15 store_order16 ! e)))
                            [0..<14] dest"
  have u: "length d14 = length dest"
    unfolding d14_def
    by (rule stores_untouched [THEN conjunct1, of 180]) (use assms(1) in auto)
  have split: "[0..<15] = [0..<14] @ [14]" by (simp add: upt_conv_Cons)
  have len: "length (take 15 store_order16) = 15" by (simp add: store_order16_def)
  have o14: "take 15 store_order16 ! 14 = 7" by (simp add: store_order16_def)
  have "store_in_order dest (\<lambda>e. e * 12) F (take 15 store_order16)
              = mm_storeu_si128 d14 (14 * 12) (F ! (take 15 store_order16 ! 14))"
    unfolding store_in_order_def len split d14_def by simp
  then have so: "store_in_order dest (\<lambda>e. e * 12) F (take 15 store_order16)
              = mm_storeu_si128 d14 168 (F ! 7)"
    by (simp only: o14) simp
  have "fst (unshuffle12_step src 16 0 (dest, xmm1))
          = mm_maskmoveu_si128 (mm_storeu_si128 d14 168 (F ! 7)) (F ! 15) unshuffle12_mask 180"
    using so by (simp add: unshuffle12_step_def Let_def X_def F_def)
  moreover have "\<not> bit (unshuffle12_mask ! 0) 7"
    by (simp add: unshuffle12_mask_def mm_setr_epi8_def)
  ultimately have "fst (unshuffle12_step src 16 0 (dest, xmm1)) ! 180
                     = mm_storeu_si128 d14 168 (F ! 7) ! 180"
    by (simp add: maskmove_untouched)
  also have "\<dots> = F ! 7 ! 12"
    using assms(1) u by (simp add: mm_storeu_si128_def nth_mm_storeu)
  also have "\<dots> = X ! 12 ! 14" unfolding F_def by (rule untranspose16_stages_7_12 [OF lX rX])
  finally show ?thesis using X12 by simp
qed

lemma unshuffle_sse2_12_192:
  "unshuffle_sse2 hst 12 192 src dest
     = fst (unshuffle12_step src 16 0 (dest, xmm1_on_entry hst))"
  by (simp add: unshuffle_sse2_def unshuffle12_sse2_def vector_steps_def Let_def)

text \<open>
  Claim C3 at the width 12 on a host that dispatches to SSE2 (SSE2 present, AVX2 not
  compiled in or not present), for a block of 192 bytes (16 elements).
  \<open>unshuffle_sse2\<close> calls \<open>unshuffle12_sse2\<close>, whose last store is masked with
  \<open>setr_epi8(0, 0, 0, 0, 0xff, ...)\<close>: the first four bytes of the sixteenth element are
  not stored, so they keep what the store of the fifteenth element put there, bytes of
  the registers \<open>xmm1[12..15]\<close> that the kernel never loads. The byte 180 of the result
  is the byte 14 of \<open>xmm1[12]\<close> as the stack holds it on entry, whatever the input is;
  so whatever \<open>shuffle\<close> writes, some buffer of 192 bytes is not given back by
  \<open>unshuffle\<close>.
\<close>

theorem unshuffle12_sse2_not_inverse:
  assumes "HAS_SSE2 (features hst)" "\<not> HAS_AVX2 (features hst)"
    and "length (xmm1_on_entry hst) = 16" "\<forall>r\<in>set (xmm1_on_entry hst). length r = 16"
    and "192 \<le> length dest"
  shows "(\<forall>y. unshuffle hst 12 192 y dest ! 180 = xmm1_on_entry hst ! 12 ! 14)
       \<and> (\<exists>x. length x = 192
              \<and> take 192 (unshuffle hst 12 192 (shuffle hst 12 192 x dest0) dest) \<noteq> x)"
proof -
  let ?g = "xmm1_on_entry hst ! 12 ! 14"
  have a: "\<And>y. unshuffle hst 12 192 y dest ! 180 = ?g"
    using assms unshuffle12_step_180 [of dest "xmm1_on_entry hst"]
    by (simp add: unshuffle_def unshuffle_sse2_12_192)
  let ?x = "replicate 192 (?g + 1)"
  let ?r = "take 192 (unshuffle hst 12 192 (shuffle hst 12 192 ?x dest0) dest)"
  have "length (unshuffle hst 12 192 (shuffle hst 12 192 ?x dest0) dest) = length dest"
    using assms(1,2) by (simp add: unshuffle_def unshuffle_sse2_12_192)
  then have "?r ! 180 = ?g" using a assms(5) by simp
  moreover have "?x ! 180 = ?g + 1" by simp
  ultimately have "?r \<noteq> ?x" by (metis add_cancel_left_right zero_neq_one)
  then show ?thesis using a by (intro conjI allI exI [of _ ?x]) simp_all
qed


text \<open>At the width 1 the dispatchers of shuffle.cpp copy 256 bytes whatever the block
  size is: the bytes of the destination from 256 on are left as they were.\<close>

lemma memcpy_untouched:
  assumes "dp + n \<le> q"
  shows "memcpy dest dp src sp n ! q = dest ! q"
proof -
  have "\<And>ks d. \<forall>k\<in>set ks. dp + k \<noteq> q \<Longrightarrow> fold (\<lambda>k d. d[dp + k := src ! (sp + k)]) ks d ! q = d ! q"
  proof -
    fix ks :: "nat list" and d :: "u8 list"
    show "\<forall>k\<in>set ks. dp + k \<noteq> q \<Longrightarrow> fold (\<lambda>k d. d[dp + k := src ! (sp + k)]) ks d ! q = d ! q"
      by (induction ks arbitrary: d) simp_all
  qed
  from this [of "[0..<n]" dest] assms show ?thesis by (simp add: memcpy_def)
qed

lemma shuffle_width_1_copies_256:
  assumes "256 \<le> q"
  shows "shuffle hst 1 n src dest ! q = dest ! q" "unshuffle hst 1 n src dest ! q = dest ! q"
  using assms by (simp_all add: shuffle_def unshuffle_def memcpy_untouched)

theorem unshuffle12_sse2_not_inverse_witness:
  "HAS_SSE2 (features sse2_host) \<and> \<not> HAS_AVX2 (features sse2_host)
   \<and> length (xmm1_on_entry sse2_host) = 16
   \<and> list_all (\<lambda>r. length r = 16) (xmm1_on_entry sse2_host)
   \<and> 192 \<le> length (replicate 192 (0::u8))
   \<and> (\<forall>y. unshuffle sse2_host 12 192 y (replicate 192 0) ! 180 = xmm1_on_entry sse2_host ! 12 ! 14)
   \<and> (\<exists>x. length x = 192
          \<and> take 192 (unshuffle sse2_host 12 192 (shuffle sse2_host 12 192 x (replicate 192 0))
                         (replicate 192 0)) \<noteq> x)"
proof -
  have h: "HAS_SSE2 (features sse2_host)" "\<not> HAS_AVX2 (features sse2_host)"
    "length (xmm1_on_entry sse2_host) = 16"
    "\<forall>r\<in>set (xmm1_on_entry sse2_host). length r = 16"
    "192 \<le> length (replicate 192 (0::u8))"
    by (simp_all add: sse2_host_def)
  have l: "list_all (\<lambda>r. length r = 16) (xmm1_on_entry sse2_host)"
    using h(4) by (simp add: list_all_iff)
  from unshuffle12_sse2_not_inverse [OF h, of "replicate 192 0"] h l show ?thesis by blast
qed

end
